theory Spec2Isabelle
  imports Main "HOL-Library.Word" "HOL-Library.Multiset"
begin

section \<open>Remote errors and the retry classifier\<close>

text \<open>
  A Go \<open>error\<close> is \<open>nil\<close> or a value with a dynamic type. The type switch of
  \<open>shouldRetry\<close> tells \<open>*googleapi.Error\<close> from everything else, so the model keeps
  three shapes: the API error with its \<open>Code\<close> and its \<open>Errors\<close> items, any other
  error, and the errors \<open>fmt.Errorf\<close> builds around another one. \<open>nil\<close> is \<open>None\<close>.
  \<open>Code\<close> is only compared, never computed with, so it is an \<open>int\<close>.
\<close>

datatype error_item = ErrorItem (Reason: string)

datatype googleapi_error = GoogleapiError (Code: int) (Errors: "error_item list")

datatype go_error =
    Googleapi googleapi_error
  | Plain string
  | Errorf string go_error

definition shouldRetry :: "go_error option \<Rightarrow> bool \<times> go_error option" where
  "shouldRetry err =
     (case err of
        Some (Googleapi gerr) \<Rightarrow>
          if Code gerr \<ge> 500 \<and> Code gerr < 600 then (True, err)
          else if length (Errors gerr) > 0 then
            (let reason = Reason (Errors gerr ! 0) in
             if reason = ''rateLimitExceeded'' \<or> reason = ''userRateLimitExceeded''
             then (True, err) else (False, err))
          else (False, err)
      | _ \<Rightarrow> (False, err))"

text \<open>
  The classification in the words of the specification: a remote API error whose status
  is in 500..599, or whose declared reason (the reason of its first error item, the one
  the code reads) is one of the two rate-limit reasons.
\<close>

definition declared_reason :: "googleapi_error \<Rightarrow> string option" where
  "declared_reason gerr = (case Errors gerr of [] \<Rightarrow> None | e # _ \<Rightarrow> Some (Reason e))"

definition spec_retryable :: "go_error option \<Rightarrow> bool" where
  "spec_retryable err =
     (case err of
        Some (Googleapi gerr) \<Rightarrow>
          (500 \<le> Code gerr \<and> Code gerr \<le> 599)
          \<or> declared_reason gerr = Some ''rateLimitExceeded''
          \<or> declared_reason gerr = Some ''userRateLimitExceeded''
      | _ \<Rightarrow> False)"

section \<open>The call executor\<close>

datatype calculator = NewGoogleDrive | NewDefault

record pacer =
  calculator :: calculator
  retries :: int
  maxConnections :: int

text \<open>
  Modelled from the spec: the call executor is rclone's \<open>lib/pacer\<close>, which is not
  under src/. Section 4.1 gives its retry policy: the wrapped call is repeated while the
  classifier says retry, up to the configured number of attempts, and the last error is
  what the caller gets. \<open>fn i\<close> is what the wrapped call answers on attempt \<open>i\<close>
  (counted from 0); the result is the error returned and the number of attempts made.
  The admission gate only delays a call and the calculator only sets the sleep between
  two attempts; neither changes what is returned. The executor with its gate and its
  sleeps is modelled after the configuration below.
\<close>

fun pacer_loop ::
  "(nat \<Rightarrow> bool \<times> go_error option) \<Rightarrow> nat \<Rightarrow> nat \<Rightarrow> go_error option \<Rightarrow> go_error option \<times> nat"
where
  "pacer_loop fn i 0 err = (err, i)"
| "pacer_loop fn i (Suc k) err =
     (case fn i of (retry, e) \<Rightarrow> if retry then pacer_loop fn (Suc i) k e else (e, Suc i))"

definition pacer_Call :: "pacer \<Rightarrow> (nat \<Rightarrow> bool \<times> go_error option) \<Rightarrow> go_error option \<times> nat" where
  "pacer_Call p fn = pacer_loop fn 0 (nat (retries p)) None"

text \<open>
  The configuration \<open>main\<close> gives the pacer it gets from \<open>pacer.New()\<close>: the first
  program of main.go (and the sequential program) installs the Google Drive calculator
  with 5 attempts and 10 connections, the second program of main.go the default
  calculator with 50 attempts and 100 connections.
\<close>

definition SetCalculator :: "calculator \<Rightarrow> pacer \<Rightarrow> pacer" where
  "SetCalculator c p = p\<lparr>calculator := c\<rparr>"

definition SetRetries :: "int \<Rightarrow> pacer \<Rightarrow> pacer" where
  "SetRetries n p = p\<lparr>retries := n\<rparr>"

definition SetMaxConnections :: "int \<Rightarrow> pacer \<Rightarrow> pacer" where
  "SetMaxConnections n p = p\<lparr>maxConnections := n\<rparr>"

definition main_pacer_default :: "pacer \<Rightarrow> pacer" where
  "main_pacer_default new =
     SetMaxConnections 10 (SetRetries 5 (SetCalculator NewGoogleDrive new))"

definition main_pacer_aggressive :: "pacer \<Rightarrow> pacer" where
  "main_pacer_aggressive new =
     SetMaxConnections 100 (SetRetries 50 (SetCalculator NewDefault new))"

text \<open>
  Modelled from the spec: the backoff delay and the admission gate of the call executor,
  which are rclone's \<open>lib/pacer\<close> and not under src/. Section 4.1 asks for an increasing
  delay between the attempts of a call, exponential with jitter, from a pluggable
  calculator, and for at most N calls in flight in the whole process, a caller beyond
  the cap waiting until a slot is free. A calculator is modelled by its curve: the unit
  of its delays and the jitter it draws before each retry, a draw being cut to less than
  the unit; \<open>Calculate cv k\<close> is the sleep after \<open>k + 1\<close> attempts that answered retry.
  Which curve \<open>NewGoogleDrive\<close> and \<open>NewDefault\<close> give is rclone's, so the executor
  takes the curves of the calculators as a parameter and reads the one of the calculator
  that \<open>main\<close> installed.

  A call is waiting for a slot (with the number of its next attempt, the attempts it has
  left and the error of its last attempt), in flight, or finished with what \<open>Call\<close>
  returns. One step of a waiting call finishes it when no attempt is left, admits it when
  fewer calls than \<open>maxConnections\<close> are in flight, after the sleep the calculator
  gives when this is a retry, and leaves it waiting otherwise; one step of a call in
  flight makes the attempt, frees the slot and asks the classifier. The executor holds
  the calls of the process and the number in flight; a schedule names the call that
  moves next.
\<close>

record curve =
  unit_sleep :: nat
  jitter :: "nat \<Rightarrow> nat"

definition Calculate :: "curve \<Rightarrow> nat \<Rightarrow> nat" where
  "Calculate cv k = unit_sleep cv * 2 ^ k + jitter cv k mod unit_sleep cv"

datatype call_state =
    Waiting nat nat "go_error option"
  | InFlight nat nat
  | Finished "go_error option" nat

record paced_call =
  call_fn :: "nat \<Rightarrow> bool \<times> go_error option"
  call_state :: call_state
  sleeps :: "nat list"

record executor =
  in_flight :: nat
  calls :: "paced_call list"

definition call_step ::
  "pacer \<Rightarrow> (calculator \<Rightarrow> curve) \<Rightarrow> nat \<Rightarrow> paced_call \<Rightarrow> nat \<times> paced_call"
where
  "call_step p cv n c =
     (case call_state c of
        Waiting i k err \<Rightarrow>
          if k = 0 then (n, c\<lparr>call_state := Finished err i\<rparr>)
          else if int n < maxConnections p then
            (Suc n, c\<lparr>call_state := InFlight i k,
                      sleeps := sleeps c @
                        (if i = 0 then [] else [Calculate (cv (calculator p)) (i - 1)])\<rparr>)
          else (n, c)
      | InFlight i k \<Rightarrow>
          (case call_fn c i of
             (retry, e) \<Rightarrow>
               (n - 1, c\<lparr>call_state := (if retry then Waiting (Suc i) (k - 1) e
                                         else Finished e (Suc i))\<rparr>))
      | Finished e m \<Rightarrow> (n, c))"

definition executor_step ::
  "pacer \<Rightarrow> (calculator \<Rightarrow> curve) \<Rightarrow> nat \<Rightarrow> executor \<Rightarrow> executor"
where
  "executor_step p cv j ex =
     (if j < length (calls ex) then
        (case call_step p cv (in_flight ex) (calls ex ! j) of
           (n, c) \<Rightarrow> \<lparr>in_flight = n, calls = (calls ex)[j := c]\<rparr>)
      else ex)"

fun executor_run ::
  "pacer \<Rightarrow> (calculator \<Rightarrow> curve) \<Rightarrow> nat list \<Rightarrow> executor \<Rightarrow> executor" where
  "executor_run p cv [] ex = ex"
| "executor_run p cv (j # sched) ex = executor_run p cv sched (executor_step p cv j ex)"

definition executor_start ::
  "pacer \<Rightarrow> (nat \<Rightarrow> bool \<times> go_error option) list \<Rightarrow> executor"
where
  "executor_start p fns =
     \<lparr>in_flight = 0,
      calls = map (\<lambda>fn. \<lparr>call_fn = fn, call_state = Waiting 0 (nat (retries p)) None,
                           sleeps = []\<rparr>) fns\<rparr>"

text \<open>
  What holds of the executor in every state: the calls are the ones it started with, the
  number in flight counts the calls in flight and is within the cap, and every call has
  slept what the calculator gave for its retries so far and will return what
  \<open>pacer_Call\<close> returns.
\<close>

definition flying :: "paced_call \<Rightarrow> bool" where
  "flying c = (case call_state c of InFlight i k \<Rightarrow> True | _ \<Rightarrow> False)"

definition call_ok :: "pacer \<Rightarrow> (calculator \<Rightarrow> curve) \<Rightarrow> paced_call \<Rightarrow> bool" where
  "call_ok p cv c =
     (case call_state c of
        Waiting i k err \<Rightarrow>
          pacer_loop (call_fn c) i k err = pacer_Call p (call_fn c) \<and>
          sleeps c = map (Calculate (cv (calculator p))) [0 ..< i - 1]
      | InFlight i k \<Rightarrow>
          0 < k \<and> pacer_loop (call_fn c) i k None = pacer_Call p (call_fn c) \<and>
          sleeps c = map (Calculate (cv (calculator p))) [0 ..< i]
      | Finished e m \<Rightarrow>
          (e, m) = pacer_Call p (call_fn c) \<and>
          sleeps c = map (Calculate (cv (calculator p))) [0 ..< m - 1])"

definition executor_ok ::
  "pacer \<Rightarrow> (calculator \<Rightarrow> curve) \<Rightarrow> (nat \<Rightarrow> bool \<times> go_error option) list \<Rightarrow> executor
     \<Rightarrow> bool"
where
  "executor_ok p cv fns ex =
     (map call_fn (calls ex) = fns \<and>
      in_flight ex = length (filter flying (calls ex)) \<and>
      int (in_flight ex) \<le> max 0 (maxConnections p) \<and>
      list_all (call_ok p cv) (calls ex))"

section \<open>The page fetcher\<close>

record drive_file =
  file_Id :: string
  file_Title :: string
  file_MimeType :: string
  file_ExplicitlyTrashed :: bool

record list_request =
  MaxResults :: int
  Fields :: "string list"
  Q :: "string option"
  PageToken :: "string option"

definition folder_mime :: string where
  "folder_mime = ''application/vnd.google-apps.folder''"

text \<open>
  The request \<open>getFolderPage\<close> builds inside its paced closure: \<open>Q\<close> and \<open>PageToken\<close>
  are set on the call only on the branches that set them.
\<close>

definition getFolderPage_call :: "string \<Rightarrow> string \<Rightarrow> list_request" where
  "getFolderPage_call folderId pageToken =
     (let call = \<lparr>MaxResults = 1000,
                  Fields = [''nextPageToken'', ''items(id, title, mimeType, explicitlyTrashed)''],
                  Q = None, PageToken = None\<rparr>;
          call = (if folderId \<noteq> ''''
                  then call\<lparr>Q := Some ([CHR 0x27] @ folderId @
                    ''' in parents and (mimeType = 'application/vnd.google-apps.folder' or trashed = true)'')\<rparr>
                  else call\<lparr>Q := Some ''mimeType = 'application/vnd.google-apps.folder' or trashed = true''\<rparr>);
          call = (if pageToken \<noteq> '''' then call\<lparr>PageToken := Some pageToken\<rparr> else call)
      in call)"

text \<open>
  The first program of main.go builds the same request through the later API version
  (\<open>PageSize\<close> for \<open>MaxResults\<close>, \<open>files\<close> and \<open>name\<close> in the field list). The
  sequential program has two builders: \<open>getFolderPage\<close> always names a parent, and
  \<open>getPage\<close> lists the whole store.
\<close>

definition getFolderPage_call_conc :: "string \<Rightarrow> string \<Rightarrow> list_request" where
  "getFolderPage_call_conc folderId pageToken =
     (let call = \<lparr>MaxResults = 1000,
                  Fields = [''nextPageToken'', ''files(id, name, mimeType, explicitlyTrashed)''],
                  Q = None, PageToken = None\<rparr>;
          call = (if folderId \<noteq> ''''
                  then call\<lparr>Q := Some ([CHR 0x27] @ folderId @
                    ''' in parents and (mimeType = 'application/vnd.google-apps.folder' or trashed = true)'')\<rparr>
                  else call\<lparr>Q := Some ''mimeType = 'application/vnd.google-apps.folder' or trashed = true''\<rparr>);
          call = (if pageToken \<noteq> '''' then call\<lparr>PageToken := Some pageToken\<rparr> else call)
      in call)"

definition getFolderPage_call_seq :: "string \<Rightarrow> string \<Rightarrow> list_request" where
  "getFolderPage_call_seq folderId pageToken =
     (let call = \<lparr>MaxResults = 1000,
                  Fields = [''nextPageToken'', ''files(id, name, mimeType, explicitlyTrashed)''],
                  Q = Some ([CHR 0x27] @ folderId @
                    ''' in parents and (mimeType = 'application/vnd.google-apps.folder' or trashed = true)''),
                  PageToken = None\<rparr>;
          call = (if pageToken \<noteq> '''' then call\<lparr>PageToken := Some pageToken\<rparr> else call)
      in call)"

definition getPage_call_seq :: "string \<Rightarrow> list_request" where
  "getPage_call_seq pageToken =
     (let call = \<lparr>MaxResults = 1000,
                  Fields = [''nextPageToken'', ''files(id, name, mimeType, explicitlyTrashed)''],
                  Q = Some ''mimeType = 'application/vnd.google-apps.folder' or trashed = true'',
                  PageToken = None\<rparr>;
          call = (if pageToken \<noteq> '''' then call\<lparr>PageToken := Some pageToken\<rparr> else call)
      in call)"

text \<open>
  The remote store, as the program sees it: what a listing request and an untrash
  request answer on each attempt of one paced call.
\<close>

record remote =
  files_list :: "list_request \<Rightarrow> nat \<Rightarrow> go_error + (drive_file list \<times> string)"
  files_untrash :: "string \<Rightarrow> nat \<Rightarrow> go_error option"

datatype page_result =
    PageOk "drive_file list" string
  | PageErr go_error
  | PagePanic

definition reply_err :: "go_error + 'a \<Rightarrow> go_error option" where
  "reply_err r = (case r of Inl e \<Rightarrow> Some e | Inr _ \<Rightarrow> None)"

text \<open>
  The body the page fetchers share: the closure stores the reply of each attempt in
  \<open>fl\<close> and \<open>err\<close> and hands \<open>err\<close> to the classifier. After the paced call, an
  error is wrapped and returned; otherwise the items and the next token are read from
  \<open>fl\<close>, which is \<open>nil\<close> when no attempt was made (a pacer with no attempts) or the
  last attempt failed, and reading it then panics.
\<close>

definition reply_fl :: "go_error + 'a \<Rightarrow> 'a option" where
  "reply_fl r = (case r of Inl e \<Rightarrow> None | Inr fl \<Rightarrow> Some fl)"

definition paged_list :: "pacer \<Rightarrow> remote \<Rightarrow> list_request \<Rightarrow> page_result" where
  "paged_list p srv call =
     (case pacer_Call p (\<lambda>i. shouldRetry (reply_err (files_list srv call i))) of
        (Some err, n) \<Rightarrow> PageErr (Errorf ''Unable to retrieve files: '' err)
      | (None, n) \<Rightarrow>
          (case (if n = 0 then None else reply_fl (files_list srv call (n - 1))) of
             None \<Rightarrow> PagePanic
           | Some (items, nextPageToken) \<Rightarrow> PageOk items nextPageToken))"

definition getFolderPage :: "pacer \<Rightarrow> remote \<Rightarrow> string \<Rightarrow> string \<Rightarrow> page_result" where
  "getFolderPage p srv folderId pageToken =
     paged_list p srv (getFolderPage_call folderId pageToken)"

definition getFolderPage_conc :: "pacer \<Rightarrow> remote \<Rightarrow> string \<Rightarrow> string \<Rightarrow> page_result" where
  "getFolderPage_conc p srv folderId pageToken =
     paged_list p srv (getFolderPage_call_conc folderId pageToken)"

definition getFolderPage_seq :: "pacer \<Rightarrow> remote \<Rightarrow> string \<Rightarrow> string \<Rightarrow> page_result" where
  "getFolderPage_seq p srv folderId pageToken =
     paged_list p srv (getFolderPage_call_seq folderId pageToken)"

definition getPage_seq :: "pacer \<Rightarrow> remote \<Rightarrow> string \<Rightarrow> page_result" where
  "getPage_seq p srv pageToken = paged_list p srv (getPage_call_seq pageToken)"

text \<open>
  The query language of the remote store, as far as the program uses it: a term over
  the three atoms, its text, and what it selects. A string constant is written between
  single quotes, with quote and backslash escaped.
\<close>

record remote_item =
  item_parents :: "string list"
  item_mimeType :: string
  item_trashed :: bool

datatype qterm =
    InParents string
  | MimeTypeIs string
  | TrashedIs bool
  | QAnd qterm qterm
  | QOr qterm qterm

fun escape :: "string \<Rightarrow> string" where
  "escape [] = []"
| "escape (c # cs) =
     (if c = CHR 0x27 \<or> c = CHR 0x5C then CHR 0x5C # c # escape cs else c # escape cs)"

definition quoted :: "string \<Rightarrow> string" where
  "quoted s = [CHR 0x27] @ escape s @ [CHR 0x27]"

fun render :: "qterm \<Rightarrow> string" where
  "render (InParents f) = quoted f @ '' in parents''"
| "render (MimeTypeIs m) = ''mimeType = '' @ quoted m"
| "render (TrashedIs b) = ''trashed = '' @ (if b then ''true'' else ''false'')"
| "render (QAnd a b) = render a @ '' and ('' @ render b @ '')''"
| "render (QOr a b) = render a @ '' or '' @ render b"

fun selects :: "qterm \<Rightarrow> remote_item \<Rightarrow> bool" where
  "selects (InParents f) it = (f \<in> set (item_parents it))"
| "selects (MimeTypeIs m) it = (item_mimeType it = m)"
| "selects (TrashedIs b) it = (item_trashed it = b)"
| "selects (QAnd a b) it = (selects a it \<and> selects b it)"
| "selects (QOr a b) it = (selects a it \<or> selects b it)"

text \<open>
  The filter in the words of the specification: direct children of the scope (no parent
  restriction for the store root, the empty id), and a folder or trashed.
\<close>

definition spec_filter :: "string \<Rightarrow> remote_item \<Rightarrow> bool" where
  "spec_filter scope it =
     ((scope = '''' \<or> scope \<in> set (item_parents it))
      \<and> (item_mimeType it = folder_mime \<or> item_trashed it))"

definition scope_query :: "string \<Rightarrow> qterm" where
  "scope_query scope =
     (if scope = '''' then QOr (MimeTypeIs folder_mime) (TrashedIs True)
      else QAnd (InParents scope) (QOr (MimeTypeIs folder_mime) (TrashedIs True)))"

text \<open>
  The largest page the remote API serves for a listing: 1000 items, the documented
  upper bound of \<open>maxResults\<close> (and of \<open>pageSize\<close> in the later API version).
\<close>

definition drive_max_page_size :: int where
  "drive_max_page_size = 1000"

text \<open>Ids as the remote store issues them hold neither a quote nor a backslash.\<close>

definition plain_id :: "string \<Rightarrow> bool" where
  "plain_id s = (CHR 0x27 \<notin> set s \<and> CHR 0x5C \<notin> set s)"

text \<open>
  An id with quotes in it, \<open>x' in parents or 'y\<close>, which the command line can hand to
  the programs as any other, and the term whose text the builders send for it.
\<close>

definition quote_id :: string where
  "quote_id = ''x'' @ [CHR 0x27] @ '' in parents or '' @ [CHR 0x27] @ ''y''"

definition quote_query :: qterm where
  "quote_query =
     QOr (InParents ''x'')
         (QAnd (InParents ''y'') (QOr (MimeTypeIs folder_mime) (TrashedIs True)))"

text \<open>
  The restore call: the paced untrash request for one item, and the error it ends with
  (\<open>None\<close> when it succeeded).
\<close>

definition restore_result :: "pacer \<Rightarrow> remote \<Rightarrow> drive_file \<Rightarrow> go_error option" where
  "restore_result p srv child =
     fst (pacer_Call p (\<lambda>i. shouldRetry (files_untrash srv (file_Id child) i)))"

section \<open>The concurrent programs: shared state, frames and the scheduler\<close>

text \<open>
  main.go holds two programs. Both run the traversal as goroutines over shared state:
  the counters, the wait group and, in the second program, the \<open>seen\<close> map under its
  mutex. The model keeps that state in one record, together with the trace of what the
  run did (claims, paced remote calls with their results, log lines) and the exit status
  of the process once it has one. The counters are \<open>uint64\<close>, the entries of \<open>seen\<close>
  are \<open>int\<close> on a 64-bit target: both are 64-bit words, and \<open>count > 0\<close> is the signed
  comparison. A key missing from the Go map reads as 0.
\<close>

datatype log_arg = Str string | Num nat | Cnt "64 word" | Err go_error

datatype log_line =
    Println "log_arg list"
  | Printf string "log_arg list"
  | Fatalf string "log_arg list"

datatype event =
    Claimed string
  | Skipped string "64 word"
  | Listed string string page_result
  | Untrashed drive_file "go_error option"
  | Logged log_line

record shared =
  seen :: "string \<rightharpoonup> 64 word"
  countFolders :: "64 word"
  countRestored :: "64 word"
  wg :: int
  events :: "event list"
  exit_code :: "nat option"

definition lookup :: "(string \<rightharpoonup> 64 word) \<Rightarrow> string \<Rightarrow> 64 word" where
  "lookup m k = (case m k of None \<Rightarrow> 0 | Some v \<Rightarrow> v)"

definition emit :: "event \<Rightarrow> shared \<Rightarrow> shared" where
  "emit e s = s\<lparr>events := events s @ [e]\<rparr>"

definition log_if :: "bool \<Rightarrow> log_line \<Rightarrow> shared \<Rightarrow> shared" where
  "log_if b l s = (if b then emit (Logged l) s else s)"

text \<open>
  A thread is a stack of frames, the work it still has to do, innermost first. One
  step of a thread runs its top frame up to the next point where it touches shared state
  or the remote store. \<open>ProcessFolder\<close> is a call of \<open>processFolder\<close> about to start, with
  the title its caller knows the folder by and who the caller is (which decides what
  happens to a returned error); \<open>ForPages\<close> is its page loop about to fetch with a token;
  \<open>RestoreTrashed\<close> is a call of \<open>restoreTrashed\<close> about to start and \<open>ForChilds\<close> its
  loop over the remaining items; \<open>GoRestore\<close> is the goroutine restoring one item. The
  last three are the end of \<open>main\<close>: the log line before the wait, \<open>wg.Wait()\<close>, and the
  report of the totals.
\<close>

datatype caller = FromArgs | FromRoot | FromRestore

datatype frame =
    ProcessFolder string string caller
  | ForPages string string string caller
  | RestoreTrashed string "drive_file list" bool
  | ForChilds string "drive_file list" bool
  | GoRestore drive_file string
  | LogWaiting
  | WgWait
  | ReportTotals

type_synonym outcome = "frame list \<times> frame list list \<times> shared"

text \<open>
  What a frame leaves behind: the frames that replace it on its stack, the goroutines
  it started (each \<open>go\<close> comes after its \<open>wg.Add(1)\<close>), and the shared state.
\<close>

definition dq :: string where
  "dq = [CHR 0x22]"

text \<open>The second program of main.go (the one with the \<open>seen\<close> map).\<close>

fun exec_dedup :: "pacer \<Rightarrow> remote \<Rightarrow> bool \<Rightarrow> frame \<Rightarrow> shared \<Rightarrow> outcome" where
  "exec_dedup p srv verbose (ProcessFolder folderId folderTitle cl) s =
     (let count = lookup (seen s) folderId;
          s = s\<lparr>seen := (seen s)(folderId \<mapsto> count + 1)\<rparr>
      in if 0 <s count then
           ([], [],
            log_if verbose
              (Printf (''Not processing folder ID '' @ dq @ ''%s'' @ dq @
                       '', already seen %d times, with name '' @ dq @ ''%s'' @ dq)
                 [Str folderId, Cnt count, Str folderTitle])
              (emit (Skipped folderId count) s))
         else
           ([ForPages folderId folderTitle '''' cl], [],
            log_if verbose
              (Printf (''Processing folder ID '' @ dq @ ''%s'' @ dq @
                       '', seen %d times, with name '' @ dq @ ''%s'' @ dq)
                 [Str folderId, Cnt count, Str folderTitle])
              ((emit (Claimed folderId) s)\<lparr>countFolders := countFolders s + 1\<rparr>)))"
| "exec_dedup p srv verbose (ForPages folderId folderTitle pageToken cl) s =
     (let r = getFolderPage p srv folderId pageToken;
          s = emit (Listed folderId pageToken r) s
      in case r of
           PageErr e \<Rightarrow>
             (let err = Errorf ''Failed to get file listing: '' e in
              case cl of
                FromArgs \<Rightarrow>
                  ([], [], emit (Logged (Printf ''Unable to list folder %q: %v''
                                          [Str folderId, Err err])) s)
              | FromRoot \<Rightarrow>
                  ([], [], (emit (Logged (Fatalf ''Unable to list drive: %v'' [Err err])) s)
                             \<lparr>exit_code := Some 1\<rparr>)
              | FromRestore \<Rightarrow>
                  ([], [], emit (Logged (Println [Str ''unable to list'', Str folderTitle,
                                                  Err err])) s))
         | PagePanic \<Rightarrow> ([], [], s\<lparr>exit_code := Some 2\<rparr>)
         | PageOk files tok \<Rightarrow>
             ((if tok = '''' then [] else [ForPages folderId folderTitle tok cl]),
              [[RestoreTrashed folderId files True]],
              s\<lparr>wg := wg s + 1\<rparr>))"
| "exec_dedup p srv verbose (RestoreTrashed folderID childs recurse) s =
     ([ForChilds (if folderID = '''' then ''root'' else folderID) childs recurse], [], s)"
| "exec_dedup p srv verbose (ForChilds folderID [] recurse) s = ([], [], s)"
| "exec_dedup p srv verbose (ForChilds folderID (child # rest) recurse) s =
     ((if recurse \<and> file_MimeType child = ''application/vnd.google-apps.folder''
       then [ProcessFolder (file_Id child) (file_Title child) FromRestore] else [])
      @ [ForChilds folderID rest recurse],
      (if file_ExplicitlyTrashed child then [[GoRestore child folderID]] else []),
      (if file_ExplicitlyTrashed child then s\<lparr>wg := wg s + 1\<rparr> else s))"
| "exec_dedup p srv verbose (GoRestore child folderID) s =
     (let s = log_if verbose (Printf ''Restoring %v %v in folder %v''
                 [Str (file_Id child), Str (file_Title child), Str folderID]) s;
          err = fst (pacer_Call p (\<lambda>i. shouldRetry (files_untrash srv (file_Id child) i)));
          s = emit (Untrashed child err) s
      in case err of
           Some e \<Rightarrow>
             ([], [], emit (Logged (Printf ''Failed to restore file %v %v in folder %v: %s''
                 [Str (file_Id child), Str (file_Title child), Str folderID, Err e])) s)
         | None \<Rightarrow>
             ([], [], (log_if verbose (Printf ''Restored %v %v in folder %v''
                 [Str (file_Id child), Str (file_Title child), Str folderID]) s)
                        \<lparr>countRestored := countRestored s + 1\<rparr>))"
| "exec_dedup p srv verbose LogWaiting s =
     ([], [], emit (Logged (Printf ''Waiting for goroutines to finish...'' [])) s)"
| "exec_dedup p srv verbose WgWait s = ((if wg s = 0 then [] else [WgWait]), [], s)"
| "exec_dedup p srv verbose ReportTotals s =
     ([], [],
      emit (Logged (Printf ''Restored %d files in total'' [Cnt (countRestored s)]))
        (emit (Logged (Printf ''Processed %d folders in total'' [Cnt (countFolders s)])) s))"

text \<open>
  The first program of main.go: the same traversal with no \<open>seen\<close> map and no folder
  counter. Its \<open>processFolder\<close> takes no title; the frame keeps the name its caller logs
  on an error.
\<close>

fun exec_conc :: "pacer \<Rightarrow> remote \<Rightarrow> bool \<Rightarrow> frame \<Rightarrow> shared \<Rightarrow> outcome" where
  "exec_conc p srv verbose (ProcessFolder folderId name cl) s =
     ([ForPages folderId name '''' cl], [], s)"
| "exec_conc p srv verbose (ForPages folderId name pageToken cl) s =
     (let r = getFolderPage_conc p srv folderId pageToken;
          s = emit (Listed folderId pageToken r) s
      in case r of
           PageErr e \<Rightarrow>
             (let err = Errorf ''Failed to get file listing: '' e in
              case cl of
                FromArgs \<Rightarrow>
                  ([], [], emit (Logged (Printf ''Unable to list folder %q: %v''
                                          [Str folderId, Err err])) s)
              | FromRoot \<Rightarrow>
                  ([], [], (emit (Logged (Fatalf ''Unable to list drive: %v'' [Err err])) s)
                             \<lparr>exit_code := Some 1\<rparr>)
              | FromRestore \<Rightarrow>
                  ([], [], emit (Logged (Println [Str ''unable to list'', Str name,
                                                  Err err])) s))
         | PagePanic \<Rightarrow> ([], [], s\<lparr>exit_code := Some 2\<rparr>)
         | PageOk files tok \<Rightarrow>
             ((if tok = '''' then [] else [ForPages folderId name tok cl]),
              [[RestoreTrashed folderId files True]],
              (log_if verbose (Println [Str ''got page with'', Num (length files),
                                        Str ''entries'']) s)\<lparr>wg := wg s + 1\<rparr>))"
| "exec_conc p srv verbose (RestoreTrashed parent childs recurse) s =
     ([ForChilds (if parent = '''' then ''root'' else parent) childs recurse], [],
      log_if verbose (Println [Str ''restoring trash in'',
                               Str (if parent = '''' then ''root'' else parent)]) s)"
| "exec_conc p srv verbose (ForChilds parent [] recurse) s = ([], [], s)"
| "exec_conc p srv verbose (ForChilds parent (child # rest) recurse) s =
     ((if recurse \<and> file_MimeType child = ''application/vnd.google-apps.folder''
       then [ProcessFolder (file_Id child) (file_Title child) FromRestore] else [])
      @ [ForChilds parent rest recurse],
      (if file_ExplicitlyTrashed child then [[GoRestore child parent]] else []),
      (if file_ExplicitlyTrashed child then s\<lparr>wg := wg s + 1\<rparr> else s))"
| "exec_conc p srv verbose (GoRestore child parent) s =
     (let err = fst (pacer_Call p (\<lambda>i. shouldRetry (files_untrash srv (file_Id child) i)));
          s = emit (Untrashed child err) s
      in case err of
           Some e \<Rightarrow>
             ([], [], emit (Logged (Printf ''Failed to restore file %v %v in folder %v: %s''
                 [Str (file_Id child), Str (file_Title child), Str parent, Err e])) s)
         | None \<Rightarrow>
             ([], [], (log_if verbose (Printf ''Restored file %v %v in folder %v''
                 [Str (file_Id child), Str (file_Title child), Str parent]) s)
                        \<lparr>countRestored := countRestored s + 1\<rparr>))"
| "exec_conc p srv verbose LogWaiting s =
     ([], [], emit (Logged (Printf ''Waiting for goroutines to finish...'' [])) s)"
| "exec_conc p srv verbose WgWait s = ((if wg s = 0 then [] else [WgWait]), [], s)"
| "exec_conc p srv verbose ReportTotals s =
     ([], [], emit (Logged (Printf ''Restored %d files in total'' [Cnt (countRestored s)])) s)"

text \<open>
  The process: the stack of \<open>main\<close> and the goroutines started so far, \<open>None\<close> for one
  that has returned. A goroutine with no frame left has only its closing \<open>wg.Done()\<close> to
  run, which panics on a negative counter. When \<open>main\<close> has no frame left it returns and
  the process exits with status 0; a process that has exited takes no further step. The
  schedule says, step by step, which thread runs: 0 is \<open>main\<close>, \<open>j + 1\<close> the goroutine
  started as number \<open>j\<close>.
\<close>

record config =
  sh :: shared
  main_thread :: "frame list"
  goroutines :: "frame list option list"

definition wg_Done :: "shared \<Rightarrow> shared" where
  "wg_Done s = (if wg s - 1 < 0 then s\<lparr>exit_code := Some 2\<rparr> else s\<lparr>wg := wg s - 1\<rparr>)"

definition step :: "(frame \<Rightarrow> shared \<Rightarrow> outcome) \<Rightarrow> nat \<Rightarrow> config \<Rightarrow> config" where
  "step ex i c =
     (if exit_code (sh c) \<noteq> None then c
      else case i of
        0 \<Rightarrow>
          (case main_thread c of
             [] \<Rightarrow> c\<lparr>sh := (sh c)\<lparr>exit_code := Some 0\<rparr>\<rparr>
           | fr # rest \<Rightarrow>
               (case ex fr (sh c) of (frs, sp, s') \<Rightarrow>
                  c\<lparr>sh := s', main_thread := frs @ rest,
                    goroutines := goroutines c @ map Some sp\<rparr>))
      | Suc j \<Rightarrow>
          (if j < length (goroutines c) then
             (case goroutines c ! j of
                None \<Rightarrow> c
              | Some [] \<Rightarrow> c\<lparr>sh := wg_Done (sh c), goroutines := (goroutines c)[j := None]\<rparr>
              | Some (fr # rest) \<Rightarrow>
                  (case ex fr (sh c) of (frs, sp, s') \<Rightarrow>
                     c\<lparr>sh := s',
                       goroutines := (goroutines c)[j := Some (frs @ rest)] @ map Some sp\<rparr>))
           else c))"

fun run :: "(frame \<Rightarrow> shared \<Rightarrow> outcome) \<Rightarrow> nat list \<Rightarrow> config \<Rightarrow> config" where
  "run ex [] c = c"
| "run ex (i # sched) c = run ex sched (step ex i c)"

text \<open>
  The start of \<open>main\<close>. The collaborators it needs before the traversal are the
  credentials file, its parsing, the client (whose construction has fatal exits of its
  own) and the service; each either works or ends the process with \<open>log.Fatalf\<close>, which
  exits with status 1.
\<close>

record startup =
  ReadFile_err :: "go_error option"
  ConfigFromJSON_err :: "go_error option"
  getClient_fatal :: "log_line option"
  drive_New_err :: "go_error option"

definition startup_fatal :: "startup \<Rightarrow> log_line option" where
  "startup_fatal st =
     (case ReadFile_err st of
        Some err \<Rightarrow> Some (Fatalf ''Unable to read client secret file: %v'' [Err err])
      | None \<Rightarrow>
     (case ConfigFromJSON_err st of
        Some err \<Rightarrow> Some (Fatalf ''Unable to parse client secret file to config: %v'' [Err err])
      | None \<Rightarrow>
     (case getClient_fatal st of
        Some l \<Rightarrow> Some l
      | None \<Rightarrow>
     (case drive_New_err st of
        Some err \<Rightarrow> Some (Fatalf ''Unable to retrieve drive Client %v'' [Err err])
      | None \<Rightarrow> None))))"

definition shared0 :: shared where
  "shared0 = \<lparr>seen = Map.empty, countFolders = 0, countRestored = 0, wg = 0,
              events = [], exit_code = None\<rparr>"

definition main_frames :: "string \<Rightarrow> string list \<Rightarrow> frame list" where
  "main_frames rootTitle args =
     (if length args > 0 then map (\<lambda>folderId. ProcessFolder folderId '''' FromArgs) args
      else [ProcessFolder '''' rootTitle FromRoot])
     @ [LogWaiting, WgWait, ReportTotals]"

definition main_start :: "string \<Rightarrow> startup \<Rightarrow> string list \<Rightarrow> config" where
  "main_start rootTitle st args =
     (case startup_fatal st of
        Some l \<Rightarrow> \<lparr>sh = (emit (Logged l) shared0)\<lparr>exit_code := Some 1\<rparr>,
                   main_thread = [], goroutines = []\<rparr>
      | None \<Rightarrow> \<lparr>sh = shared0, main_thread = main_frames rootTitle args, goroutines = []\<rparr>)"

definition main_dedup ::
  "pacer \<Rightarrow> remote \<Rightarrow> bool \<Rightarrow> startup \<Rightarrow> string list \<Rightarrow> nat list \<Rightarrow> config" where
  "main_dedup new srv verbose st args sched =
     run (exec_dedup (main_pacer_aggressive new) srv verbose) sched (main_start ''/'' st args)"

definition main_conc ::
  "pacer \<Rightarrow> remote \<Rightarrow> bool \<Rightarrow> startup \<Rightarrow> string list \<Rightarrow> nat list \<Rightarrow> config" where
  "main_conc new srv verbose st args sched =
     run (exec_conc (main_pacer_default new) srv verbose) sched (main_start '''' st args)"

section \<open>The sequential program\<close>

text \<open>
  The third program lists and restores in one thread, with no shared state: the model
  keeps only the trace. A function either returns, or the process exits on the way (a
  fatal log line, a panic); a loop that never ends has no result at all, which is
  \<open>None\<close>. \<open>listFolder\<close> and \<open>listDrive\<close> share their text but for the page getter, so
  they share \<open>pages_seq\<close>: the first page, then the loop that appends every further page
  to \<open>files\<close> while the token is not empty and no error came back (an error comes with
  the empty token). \<open>restoreChilds_seq\<close> is the loop of \<open>restoreTrashed\<close> over the items;
  where it calls \<open>restoreTrashed\<close> for a subfolder, the log line that call starts with is
  written out at the call.
\<close>

datatype 'a seq_result = Returned 'a "event list" | Exited nat "event list"

definition logs_if :: "bool \<Rightarrow> log_line \<Rightarrow> event list" where
  "logs_if b l = (if b then [Logged l] else [])"

partial_function (option) page_loop_seq ::
  "(string \<Rightarrow> page_result) \<Rightarrow> bool \<Rightarrow> string \<Rightarrow> drive_file list \<Rightarrow> string \<Rightarrow> event list
     \<Rightarrow> (drive_file list \<times> go_error option) seq_result option"
where
  "page_loop_seq getp verbose folderId files pageToken evs =
     (if pageToken \<noteq> '''' then
        (case getp pageToken of
           PageOk f tok \<Rightarrow>
             page_loop_seq getp verbose folderId (files @ f) tok
               (evs @ [Listed folderId pageToken (PageOk f tok)] @
                logs_if verbose (Println [Str ''got page with'', Num (length f),
                   Str ''entries. file count is'', Num (length (files @ f))]))
         | PageErr err \<Rightarrow>
             Some (Returned (files, Some err)
               (evs @ [Listed folderId pageToken (PageErr err)] @
                logs_if verbose (Println [Str ''got page with'', Num 0,
                   Str ''entries. file count is'', Num (length files)])))
         | PagePanic \<Rightarrow> Some (Exited 2 (evs @ [Listed folderId pageToken PagePanic])))
      else Some (Returned (files, None) evs))"

declare page_loop_seq.simps [code]

definition pages_seq ::
  "(string \<Rightarrow> page_result) \<Rightarrow> bool \<Rightarrow> string \<Rightarrow> event list
     \<Rightarrow> (drive_file list \<times> go_error option) seq_result option"
where
  "pages_seq getp verbose folderId evs =
     (case getp '''' of
        PageErr err \<Rightarrow> Some (Returned ([], Some err) (evs @ [Listed folderId '''' (PageErr err)]))
      | PagePanic \<Rightarrow> Some (Exited 2 (evs @ [Listed folderId '''' PagePanic]))
      | PageOk files tok \<Rightarrow>
          page_loop_seq getp verbose folderId files tok
            (evs @ [Listed folderId '''' (PageOk files tok)] @
             logs_if verbose (Println [Str ''got page with'', Num (length files),
                                       Str ''entries''])))"

definition listFolder_seq ::
  "pacer \<Rightarrow> remote \<Rightarrow> bool \<Rightarrow> string \<Rightarrow> event list
     \<Rightarrow> (drive_file list \<times> go_error option) seq_result option"
where
  "listFolder_seq p srv verbose folderId evs =
     pages_seq (getFolderPage_seq p srv folderId) verbose folderId evs"

definition listDrive_seq ::
  "pacer \<Rightarrow> remote \<Rightarrow> bool \<Rightarrow> event list
     \<Rightarrow> (drive_file list \<times> go_error option) seq_result option"
where
  "listDrive_seq p srv verbose evs = pages_seq (getPage_seq p srv) verbose '''' evs"

definition restore_child_seq :: "pacer \<Rightarrow> remote \<Rightarrow> bool \<Rightarrow> drive_file \<Rightarrow> event list" where
  "restore_child_seq p srv verbose child =
     (if file_ExplicitlyTrashed child then
        logs_if verbose (Println [Str ''restore'', Str (file_Id child), Str (file_Title child),
                                  Str (file_MimeType child)]) @
        [Untrashed child (restore_result p srv child)] @
        (case restore_result p srv child of
           Some err \<Rightarrow> [Logged (Println [Str ''unable restore trash'', Str (file_Id child),
                                           Str (file_Title child), Err err])]
         | None \<Rightarrow> [])
      else [])"

partial_function (option) restoreChilds_seq ::
  "pacer \<Rightarrow> remote \<Rightarrow> bool \<Rightarrow> string \<Rightarrow> drive_file list \<Rightarrow> bool \<Rightarrow> event list
     \<Rightarrow> unit seq_result option"
where
  "restoreChilds_seq p srv verbose parent childs recurse evs =
     (case childs of
        [] \<Rightarrow> Some (Returned () evs)
      | child # rest \<Rightarrow>
          (if recurse \<and> file_MimeType child = ''application/vnd.google-apps.folder'' then
             (case listFolder_seq p srv verbose (file_Id child)
                     (evs @ restore_child_seq p srv verbose child) of
                None \<Rightarrow> None
              | Some (Exited n evs') \<Rightarrow> Some (Exited n evs')
              | Some (Returned (dchilds, Some err) evs') \<Rightarrow>
                  restoreChilds_seq p srv verbose parent rest recurse
                    (evs' @ [Logged (Println [Str ''unable to list'', Str (file_Title child),
                                              Err err])])
              | Some (Returned (dchilds, None) evs') \<Rightarrow>
                  Option.bind
                    (restoreChilds_seq p srv verbose (file_Id child) dchilds recurse
                       (evs' @ logs_if verbose (Println [Str ''restore trash in'',
                                                         Str (file_Id child)])))
                    (\<lambda>r. case r of
                       Exited n evs'' \<Rightarrow> Some (Exited n evs'')
                     | Returned u evs'' \<Rightarrow>
                         restoreChilds_seq p srv verbose parent rest recurse evs''))
           else restoreChilds_seq p srv verbose parent rest recurse
                  (evs @ restore_child_seq p srv verbose child)))"

declare restoreChilds_seq.simps [code]

definition restoreTrashed_seq ::
  "pacer \<Rightarrow> remote \<Rightarrow> bool \<Rightarrow> string \<Rightarrow> drive_file list \<Rightarrow> bool \<Rightarrow> event list
     \<Rightarrow> unit seq_result option"
where
  "restoreTrashed_seq p srv verbose parent childs recurse evs =
     restoreChilds_seq p srv verbose parent childs recurse
       (evs @ logs_if verbose (Println [Str ''restore trash in'', Str parent]))"

fun main_args_seq ::
  "pacer \<Rightarrow> remote \<Rightarrow> bool \<Rightarrow> string list \<Rightarrow> event list \<Rightarrow> unit seq_result option"
where
  "main_args_seq p srv verbose [] evs = Some (Returned () evs)"
| "main_args_seq p srv verbose (folderId # args) evs =
     (case listFolder_seq p srv verbose folderId evs of
        None \<Rightarrow> None
      | Some (Exited n evs') \<Rightarrow> Some (Exited n evs')
      | Some (Returned (files, Some err) evs') \<Rightarrow>
          main_args_seq p srv verbose args
            (evs' @ [Logged (Printf ''Unable to list folder %q: %v'' [Str folderId, Err err])])
      | Some (Returned (files, None) evs') \<Rightarrow>
          (case restoreTrashed_seq p srv verbose folderId files True evs' of
             None \<Rightarrow> None
           | Some (Exited n evs'') \<Rightarrow> Some (Exited n evs'')
           | Some (Returned u evs'') \<Rightarrow> main_args_seq p srv verbose args evs''))"

text \<open>
  \<open>main\<close> of the sequential program: the exit status and the trace of the process, or
  \<open>None\<close> when it never ends.
\<close>

definition main_seq ::
  "pacer \<Rightarrow> remote \<Rightarrow> bool \<Rightarrow> startup \<Rightarrow> string list \<Rightarrow> (nat \<times> event list) option"
where
  "main_seq new srv verbose st args =
     (let p = main_pacer_default new in
      case startup_fatal st of
        Some l \<Rightarrow> Some (1, [Logged l])
      | None \<Rightarrow>
          (case (if length args > 0 then main_args_seq p srv verbose args []
                 else (case listDrive_seq p srv verbose [] of
                         None \<Rightarrow> None
                       | Some (Exited n evs) \<Rightarrow> Some (Exited n evs)
                       | Some (Returned (files, Some err) evs) \<Rightarrow>
                           Some (Exited 1 (evs @ [Logged (Fatalf ''Unable to list drive: %v''
                                                           [Err err])]))
                       | Some (Returned (files, None) evs) \<Rightarrow>
                           restoreTrashed_seq p srv verbose ''root'' files True evs)) of
             None \<Rightarrow> None
           | Some (Exited n evs) \<Rightarrow> Some (n, evs)
           | Some (Returned u evs) \<Rightarrow> Some (0, evs)))"

section \<open>Accounting over a run\<close>

text \<open>
  Sums over the trace and over the frames still on the stacks. Each law of the
  traversal below has the form "what the trace says was done, plus what the stacks still
  owe, is what the trace says was found": work is neither lost nor invented by a step.
\<close>

definition tot :: "('a \<Rightarrow> 'b::comm_monoid_add) \<Rightarrow> 'a list \<Rightarrow> 'b" where
  "tot f xs = sum_list (map f xs)"

definition thread_tot :: "(frame \<Rightarrow> 'b::comm_monoid_add) \<Rightarrow> frame list option \<Rightarrow> 'b" where
  "thread_tot f g = (case g of None \<Rightarrow> 0 | Some st \<Rightarrow> tot f st)"

definition pending :: "(frame \<Rightarrow> 'b::comm_monoid_add) \<Rightarrow> config \<Rightarrow> 'b" where
  "pending f c = tot f (main_thread c) + tot (thread_tot f) (goroutines c)"

definition balanced ::
  "(event \<Rightarrow> 'b::comm_monoid_add) \<Rightarrow> (frame \<Rightarrow> 'b) \<Rightarrow> (event \<Rightarrow> 'b) \<Rightarrow> 'b \<Rightarrow> config \<Rightarrow> bool"
where
  "balanced dn pd sr k c =
     (tot dn (events (sh c)) + pending pd c = tot sr (events (sh c)) + k)"

definition trashed :: "drive_file list \<Rightarrow> drive_file multiset" where
  "trashed childs = mset (filter file_ExplicitlyTrashed childs)"

definition subfolders :: "drive_file list \<Rightarrow> string multiset" where
  "subfolders childs =
     mset (map file_Id
       (filter (\<lambda>child. file_MimeType child = ''application/vnd.google-apps.folder'') childs))"

text \<open>Restores: dispatched or still owed, against the trashed items of the pages fetched.\<close>

fun restore_due :: "frame \<Rightarrow> drive_file multiset" where
  "restore_due (GoRestore child folderID) = {#child#}"
| "restore_due (RestoreTrashed folderID childs recurse) = trashed childs"
| "restore_due (ForChilds folderID childs recurse) = trashed childs"
| "restore_due _ = {#}"

fun restore_done :: "event \<Rightarrow> drive_file multiset" where
  "restore_done (Untrashed child err) = {#child#}"
| "restore_done _ = {#}"

fun trashed_found :: "event \<Rightarrow> drive_file multiset" where
  "trashed_found (Listed folderId pageToken (PageOk files tok)) = trashed files"
| "trashed_found _ = {#}"

fun restore_ok :: "event \<Rightarrow> drive_file multiset" where
  "restore_ok (Untrashed child None) = {#child#}"
| "restore_ok _ = {#}"

text \<open>Claims: attempted or still owed, against the roots and the folders of the pages fetched.\<close>

fun claim_due :: "frame \<Rightarrow> string multiset" where
  "claim_due (ProcessFolder folderId folderTitle cl) = {#folderId#}"
| "claim_due (RestoreTrashed folderID childs recurse) = (if recurse then subfolders childs else {#})"
| "claim_due (ForChilds folderID childs recurse) = (if recurse then subfolders childs else {#})"
| "claim_due _ = {#}"

fun attempted :: "event \<Rightarrow> string multiset" where
  "attempted (Claimed folderId) = {#folderId#}"
| "attempted (Skipped folderId n) = {#folderId#}"
| "attempted _ = {#}"

fun claimed :: "event \<Rightarrow> string multiset" where
  "claimed (Claimed folderId) = {#folderId#}"
| "claimed _ = {#}"

fun folders_found :: "event \<Rightarrow> string multiset" where
  "folders_found (Listed folderId pageToken (PageOk files tok)) = subfolders files"
| "folders_found _ = {#}"

text \<open>Pages: listed or still owed, against the claims and the tokens the pages returned.\<close>

fun page_due :: "frame \<Rightarrow> (string \<times> string) multiset" where
  "page_due (ForPages folderId folderTitle pageToken cl) = {#(folderId, pageToken)#}"
| "page_due _ = {#}"

fun listed :: "event \<Rightarrow> (string \<times> string) multiset" where
  "listed (Listed folderId pageToken r) = {#(folderId, pageToken)#}"
| "listed _ = {#}"

fun pages_owed :: "event \<Rightarrow> (string \<times> string) multiset" where
  "pages_owed (Claimed folderId) = {#(folderId, '''')#}"
| "pages_owed (Listed folderId pageToken (PageOk files tok)) =
     (if tok = '''' then {#} else {#(folderId, tok)#})"
| "pages_owed _ = {#}"

text \<open>
  What the trace must say of each remote call: its result is the one the paced call
  computes from the remote store.
\<close>

fun event_sound ::
  "(string \<Rightarrow> string \<Rightarrow> page_result) \<Rightarrow> (drive_file \<Rightarrow> go_error option) \<Rightarrow> event \<Rightarrow> bool"
where
  "event_sound lst rst (Listed folderId pageToken r) = (r = lst folderId pageToken)"
| "event_sound lst rst (Untrashed child err) = (err = rst child)"
| "event_sound lst rst _ = True"

text \<open>
  The registry against the trace: each entry of \<open>seen\<close> counts the attempts on its id,
  and an id has been claimed once exactly when it has been attempted.
\<close>

definition registry_ok :: "shared \<Rightarrow> bool" where
  "registry_ok s =
     (\<forall>f. lookup (seen s) f = of_nat (count (tot attempted (events s)) f)
        \<and> count (tot claimed (events s)) f
            = (if count (tot attempted (events s)) f = 0 then 0 else 1))"

definition counters_ok :: "shared \<Rightarrow> bool" where
  "counters_ok s =
     (countFolders s = of_nat (size (tot claimed (events s)))
      \<and> countRestored s = of_nat (size (tot restore_ok (events s))))"

definition live :: "frame list option list \<Rightarrow> nat" where
  "live gs = length (filter (\<lambda>g. g \<noteq> None) gs)"

definition quiet :: "config \<Rightarrow> bool" where
  "quiet c = (list_all (\<lambda>g. g = None) (goroutines c))"

definition main_shape :: "config \<Rightarrow> bool" where
  "main_shape c =
     ((\<exists>pre. main_thread c = pre @ [WgWait, ReportTotals]
          \<and> WgWait \<notin> set pre \<and> ReportTotals \<notin> set pre)
      \<or> ((main_thread c = [ReportTotals] \<or> main_thread c = []) \<and> quiet c))"

text \<open>
  What holds of the threads in every state of a run: the wait group counts the
  goroutines that have not returned, \<open>main\<close> still has its wait ahead or every goroutine
  has returned, and a process that exited with status 0 has no work left.
\<close>

definition sane :: "config \<Rightarrow> bool" where
  "sane c =
     (wg (sh c) = int (live (goroutines c)) \<and> main_shape c \<and>
      (exit_code (sh c) = Some 0 \<longrightarrow> main_thread c = [] \<and> quiet c))"

text \<open>The scopes \<open>main\<close> starts from: its arguments, or the store root when there are none.\<close>

definition roots :: "string list \<Rightarrow> string list" where
  "roots args = (if length args > 0 then args else [''''])"


section \<open>A store with a shared folder\<close>

text \<open>
  The scenario of the specification: folders \<open>A\<close> and \<open>B\<close> are both given as root
  arguments, and \<open>B\<close> is also a child of \<open>A\<close>, next to the trashed file \<open>F1\<close>. Every
  listing is one page and every call succeeds at once. The schedule is the order the
  specification tells: the traversal of \<open>A\<close> recurses into \<open>B\<close> before \<open>main\<close> comes to its
  second argument.
\<close>

definition file_F1 :: drive_file where
  "file_F1 = \<lparr>file_Id = ''F1'', file_Title = ''f1.txt'', file_MimeType = ''text/plain'',
              file_ExplicitlyTrashed = True\<rparr>"

definition folder_B :: drive_file where
  "folder_B = \<lparr>file_Id = ''B'', file_Title = ''b'',
               file_MimeType = ''application/vnd.google-apps.folder'',
               file_ExplicitlyTrashed = False\<rparr>"

definition shared_folder_store :: remote where
  "shared_folder_store =
     \<lparr>files_list = (\<lambda>call i. if Q call = Q (getFolderPage_call ''A'' '''')
                                then Inr ([folder_B, file_F1], '''') else Inr ([], '''')),
      files_untrash = (\<lambda>id i. None)\<rparr>"

definition startup_fine :: startup where
  "startup_fine = \<lparr>ReadFile_err = None, ConfigFromJSON_err = None, getClient_fatal = None,
                   drive_New_err = None\<rparr>"

definition pacer_New :: pacer where
  "pacer_New = \<lparr>calculator = NewDefault, retries = 3, maxConnections = 0\<rparr>"

definition shared_folder_schedule :: "nat list" where
  "shared_folder_schedule = [0, 0, 1, 1, 1, 1, 0, 1, 1, 1, 2, 2, 2, 3, 3, 0, 0, 0, 0]"

definition shared_folder_run :: config where
  "shared_folder_run =
     main_dedup pacer_New shared_folder_store False startup_fine [''A'', ''B'']
       shared_folder_schedule"


text \<open>
  Pages in the program without the registry: every reference to a folder, as a root or
  as an item of a page, owes a listing from the empty token.
\<close>

fun page_due_conc :: "frame \<Rightarrow> (string \<times> string) multiset" where
  "page_due_conc fr = page_due fr + image_mset (\<lambda>f. (f, '''')) (claim_due fr)"

fun pages_owed_conc :: "event \<Rightarrow> (string \<times> string) multiset" where
  "pages_owed_conc ev = pages_owed ev + image_mset (\<lambda>f. (f, '''')) (folders_found ev)"

text \<open>
  Frames that stem from the listing of the store root, the one call of \<open>processFolder\<close>
  whose error is fatal; and the exit statuses of a run that did not fail.
\<close>

definition rooted :: "frame \<Rightarrow> bool" where
  "rooted fr =
     (case fr of ProcessFolder folderId folderTitle cl \<Rightarrow> cl = FromRoot
               | ForPages folderId folderTitle pageToken cl \<Rightarrow> cl = FromRoot
               | _ \<Rightarrow> False)"

definition frames_all :: "(frame \<Rightarrow> bool) \<Rightarrow> config \<Rightarrow> bool" where
  "frames_all F c =
     (list_all F (main_thread c) \<and>
      list_all (\<lambda>g. case g of None \<Rightarrow> True | Some st \<Rightarrow> list_all F st) (goroutines c))"

definition clean_exit :: "nat option \<Rightarrow> bool" where
  "clean_exit e = (e = None \<or> e = Some 0)"

section \<open>Further stores and runs\<close>

text \<open>
  A folder \<open>F\<close> listed in two pages; a store that refuses every untrash request with
  status 404; a store that refuses every listing; a store with nothing in it. The runs
  below give the programs these stores and a schedule that lets every thread finish.
\<close>

definition file_X1 :: drive_file where
  "file_X1 = \<lparr>file_Id = ''X1'', file_Title = ''x1.txt'', file_MimeType = ''text/plain'',
              file_ExplicitlyTrashed = True\<rparr>"

definition file_X2 :: drive_file where
  "file_X2 = \<lparr>file_Id = ''X2'', file_Title = ''x2.txt'', file_MimeType = ''text/plain'',
              file_ExplicitlyTrashed = True\<rparr>"

definition two_page_store :: remote where
  "two_page_store =
     \<lparr>files_list = (\<lambda>call i. if PageToken call = None then Inr ([file_X1], ''t1'')
                                else Inr ([file_X2], '''')),
      files_untrash = (\<lambda>id i. None)\<rparr>"

definition not_found :: go_error where
  "not_found = Googleapi (GoogleapiError 404 [ErrorItem ''notFound''])"

definition refusing_store :: remote where
  "refusing_store =
     \<lparr>files_list = (\<lambda>call i. Inr ([file_X1], '''')),
      files_untrash = (\<lambda>id i. Some not_found)\<rparr>"

definition unlistable_store :: remote where
  "unlistable_store =
     \<lparr>files_list = (\<lambda>call i. Inl not_found), files_untrash = (\<lambda>id i. None)\<rparr>"

definition empty_store :: remote where
  "empty_store = \<lparr>files_list = (\<lambda>call i. Inr ([], '''')), files_untrash = (\<lambda>id i. None)\<rparr>"

definition repeated_root_run :: config where
  "repeated_root_run =
     main_conc pacer_New empty_store False startup_fine [''A'', ''A'']
       [0, 0, 0, 0, 0, 1, 1, 1, 2, 2, 2, 0, 0, 0]"

definition failing_restore_run :: config where
  "failing_restore_run =
     main_dedup pacer_New refusing_store False startup_fine [''P'']
       [0, 0, 0, 1, 1, 1, 1, 2, 2, 0, 0, 0]"

definition two_page_schedule :: "nat list" where
  "two_page_schedule = [0, 0, 0, 0, 1, 1, 1, 1, 2, 2, 2, 2, 3, 3, 4, 4, 0, 0, 0]"

definition two_page_run :: config where
  "two_page_run = main_dedup pacer_New two_page_store False startup_fine [''F''] two_page_schedule"

definition two_page_run_conc :: config where
  "two_page_run_conc =
     main_conc pacer_New two_page_store False startup_fine [''F''] two_page_schedule"

definition failing_listing_run :: config where
  "failing_listing_run =
     main_dedup pacer_New unlistable_store False startup_fine [''P''] [0, 0, 0, 0, 0, 0]"

text \<open>
  A process that ended at its start: each of the three programs has exited with status 1
  and its trace is the one fatal line.
\<close>

definition halts_before_listing ::
  "log_line \<Rightarrow> pacer \<Rightarrow> remote \<Rightarrow> bool \<Rightarrow> startup \<Rightarrow> string list \<Rightarrow> nat list \<Rightarrow> bool"
where
  "halts_before_listing l new srv verbose st args sched =
     (exit_code (sh (main_dedup new srv verbose st args sched)) = Some 1 \<and>
      events (sh (main_dedup new srv verbose st args sched)) = [Logged l] \<and>
      exit_code (sh (main_conc new srv verbose st args sched)) = Some 1 \<and>
      events (sh (main_conc new srv verbose st args sched)) = [Logged l] \<and>
      main_seq new srv verbose st args = Some (1, [Logged l]))"

text \<open>
  A folder \<open>A\<close> whose first page holds the folder \<open>B\<close> and whose second page is refused
  with status 404, while \<open>B\<close> lists the trashed file \<open>F1\<close>; and a start of \<open>main\<close> that
  finds no credentials file.
\<close>

definition half_listed_store :: remote where
  "half_listed_store =
     \<lparr>files_list = (\<lambda>call i. if Q call = Q (getFolderPage_call ''A'' '''')
                                then (if PageToken call = None then Inr ([folder_B], ''t1'')
                                      else Inl not_found)
                                else Inr ([file_F1], '''')),
      files_untrash = (\<lambda>id i. None)\<rparr>"

definition half_listed_schedule :: "nat list" where
  "half_listed_schedule = [0, 0, 0, 0, 1, 1, 1, 1, 1, 1, 2, 2, 2, 2, 3, 3, 0, 0, 0]"

definition half_listed_run :: config where
  "half_listed_run =
     main_dedup pacer_New half_listed_store False startup_fine [''A''] half_listed_schedule"

definition half_listed_run_conc :: config where
  "half_listed_run_conc =
     main_conc pacer_New half_listed_store False startup_fine [''A''] half_listed_schedule"

definition startup_no_secret :: startup where
  "startup_no_secret =
     \<lparr>ReadFile_err = Some (Plain ''open client_secret.json: no such file or directory''),
      ConfigFromJSON_err = None, getClient_fatal = None, drive_New_err = None\<rparr>"

text \<open>
  Eleven calls under the configuration of the first program, each answered with status
  503 twice and then served; the curves are examples. In \<open>crowd_blocked\<close> every call has
  asked for a slot once; in \<open>crowd_served\<close> the first call has then run to its end and
  the eleventh has asked again.
\<close>

definition example_curves :: "calculator \<Rightarrow> curve" where
  "example_curves c =
     (case c of NewGoogleDrive \<Rightarrow> \<lparr>unit_sleep = 1000, jitter = (\<lambda>k. 137 * k + 250)\<rparr>
              | NewDefault \<Rightarrow> \<lparr>unit_sleep = 10, jitter = (\<lambda>k. 0)\<rparr>)"

definition flaky_call :: "nat \<Rightarrow> bool \<times> go_error option" where
  "flaky_call i =
     shouldRetry (if i < 2 then Some (Googleapi (GoogleapiError 503 [])) else None)"

definition crowd_start :: executor where
  "crowd_start = executor_start (main_pacer_default pacer_New) (replicate 11 flaky_call)"

definition crowd_blocked :: executor where
  "crowd_blocked =
     executor_run (main_pacer_default pacer_New) example_curves
       [0, 1, 2, 3, 4, 5, 6, 7, 8, 9, 10] crowd_start"

definition crowd_served :: executor where
  "crowd_served =
     executor_run (main_pacer_default pacer_New) example_curves
       [0, 1, 2, 3, 4, 5, 6, 7, 8, 9, 10, 0, 0, 0, 0, 0, 10] crowd_start"

text \<open>A store that answers every request with status 503.\<close>

definition busy_error :: go_error where
  "busy_error = Googleapi (GoogleapiError 503 [])"

definition busy_store :: remote where
  "busy_store =
     \<lparr>files_list = (\<lambda>call i. Inl busy_error), files_untrash = (\<lambda>id i. Some busy_error)\<rparr>"

section \<open>The classifier and the executor: proofs\<close>

lemma pacer_loop_all_retry:
  "(\<forall>j<k. fst (fn (i + j))) \<Longrightarrow> 0 < k \<Longrightarrow>
   pacer_loop fn i k err = (snd (fn (i + k - 1)), i + k)"
proof (induction k arbitrary: i err)
  case 0
  then show ?case by simp
next
  case (Suc k)
  from Suc.prems have r: "fst (fn i)" by (metis add.right_neutral zero_less_Suc)
  show ?case
  proof (cases k)
    case 0
    with r show ?thesis by (cases "fn i") auto
  next
    case (Suc m)
    have "\<forall>j<k. fst (fn (Suc i + j))"
      using Suc.prems(1) by (metis Suc_less_eq add_Suc_shift)
    with Suc.IH[of "Suc i"] Suc
    have "pacer_loop fn (Suc i) k (snd (fn i)) = (snd (fn (Suc i + k - 1)), Suc i + k)"
      by simp
    with r show ?thesis by (cases "fn i") auto
  qed
qed

lemma pacer_loop_stop:
  "j < k \<Longrightarrow> (\<forall>m<j. fst (fn (i + m))) \<Longrightarrow> \<not> fst (fn (i + j)) \<Longrightarrow>
   pacer_loop fn i k err = (snd (fn (i + j)), Suc (i + j))"
proof (induction k arbitrary: i j err)
  case 0
  then show ?case by simp
next
  case (Suc k)
  show ?case
  proof (cases j)
    case 0
    with Suc.prems show ?thesis by (cases "fn i") auto
  next
    case (Suc j')
    from Suc.prems Suc have r: "fst (fn i)" by (metis add.right_neutral zero_less_Suc)
    have "j' < k" using Suc.prems(1) Suc by simp
    moreover have "\<forall>m<j'. fst (fn (Suc i + m))"
      using Suc.prems(2) Suc by (metis Suc_less_eq add_Suc_shift)
    moreover have "\<not> fst (fn (Suc i + j'))" using Suc.prems(3) Suc by simp
    ultimately
    have "pacer_loop fn (Suc i) k (snd (fn i)) = (snd (fn (Suc i + j')), Suc (Suc i + j'))"
      by (rule Suc.IH)
    with r Suc show ?thesis by (cases "fn i") auto
  qed
qed

lemma pacer_Call_stop:
  "int j < retries p \<Longrightarrow> (\<forall>m<j. fst (fn m)) \<Longrightarrow> \<not> fst (fn j) \<Longrightarrow>
   pacer_Call p fn = (snd (fn j), Suc j)"
  using pacer_loop_stop[of j "nat (retries p)" fn 0 None] by (simp add: pacer_Call_def)

lemma pacer_Call_exhaust:
  "0 < retries p \<Longrightarrow> (\<forall>i. int i < retries p \<longrightarrow> fst (fn i)) \<Longrightarrow>
   pacer_Call p fn = (snd (fn (nat (retries p) - 1)), nat (retries p))"
  using pacer_loop_all_retry[of "nat (retries p)" fn 0 None] by (simp add: pacer_Call_def)

lemma shouldRetry_snd: "snd (shouldRetry err) = err"
  by (simp add: shouldRetry_def Let_def split: option.splits go_error.splits)

lemma shouldRetry_fst: "fst (shouldRetry err) = spec_retryable err"
  by (auto simp: shouldRetry_def spec_retryable_def declared_reason_def Let_def
      split: option.splits go_error.splits list.splits)

text \<open>
  C2. The classifier answers retry exactly for a remote API error whose status is in
  500..599 or whose declared reason is \<open>rateLimitExceeded\<close> or
  \<open>userRateLimitExceeded\<close>. When the error of the first attempt is any other error, the
  paced call hands that error to its caller after this one attempt.
\<close>

theorem shouldRetry_retryable_iff:
  "fst (shouldRetry err) = spec_retryable err \<and>
   (0 < retries p \<and> \<not> spec_retryable (errs 0) \<longrightarrow>
      pacer_Call p (\<lambda>i. shouldRetry (errs i)) = (errs 0, Suc 0))"
  using pacer_Call_stop[of 0 p "\<lambda>i. shouldRetry (errs i)"]
  by (simp add: shouldRetry_fst shouldRetry_snd)

theorem shouldRetry_retryable_iff_witness:
  "0 < retries \<lparr>calculator = NewGoogleDrive, retries = 5, maxConnections = 10\<rparr> \<and>
   \<not> spec_retryable (Some (Googleapi (GoogleapiError 404 [ErrorItem ''notFound'']))) \<and>
   \<not> fst (shouldRetry (Some (Googleapi (GoogleapiError 404 [ErrorItem ''notFound''])))) \<and>
   pacer_Call \<lparr>calculator = NewGoogleDrive, retries = 5, maxConnections = 10\<rparr>
     (\<lambda>i. shouldRetry (Some (Googleapi (GoogleapiError 404 [ErrorItem ''notFound''])))) =
   (Some (Googleapi (GoogleapiError 404 [ErrorItem ''notFound''])), Suc 0)"
  using shouldRetry_retryable_iff[of "Some (Googleapi (GoogleapiError 404 [ErrorItem ''notFound'']))"
      "\<lparr>calculator = NewGoogleDrive, retries = 5, maxConnections = 10\<rparr>"
      "\<lambda>i. Some (Googleapi (GoogleapiError 404 [ErrorItem ''notFound'']))"]
  by (simp add: spec_retryable_def declared_reason_def)

text \<open>
  C10. The classifier returns its argument as the error component, whatever it is, and
  answers \<open>(false, nil)\<close> on \<open>nil\<close>; so a remote call whose first attempt succeeds is
  attempted once.
\<close>

theorem shouldRetry_returns_input:
  "snd (shouldRetry err) = err \<and> shouldRetry None = (False, None) \<and>
   (0 < retries p \<and> errs 0 = None \<longrightarrow>
      pacer_Call p (\<lambda>i. shouldRetry (errs i)) = (None, Suc 0))"
proof -
  have n: "shouldRetry None = (False, None)" by (simp add: shouldRetry_def)
  have "0 < retries p \<Longrightarrow> errs 0 = None \<Longrightarrow>
        pacer_Call p (\<lambda>i. shouldRetry (errs i)) = (None, Suc 0)"
    using pacer_Call_stop[of 0 p "\<lambda>i. shouldRetry (errs i)"] n by simp
  with n show ?thesis by (simp add: shouldRetry_snd)
qed

theorem shouldRetry_returns_input_witness:
  "0 < retries \<lparr>calculator = NewDefault, retries = 50, maxConnections = 100\<rparr> \<and>
   snd (shouldRetry (Some (Plain ''connection reset''))) = Some (Plain ''connection reset'') \<and>
   pacer_Call \<lparr>calculator = NewDefault, retries = 50, maxConnections = 100\<rparr>
     (\<lambda>i. shouldRetry ((\<lambda>i. if i = 0 then None else Some (Plain ''connection reset'')) i)) =
   (None, Suc 0)"
  using shouldRetry_returns_input[of "Some (Plain ''connection reset'')"
      "\<lparr>calculator = NewDefault, retries = 50, maxConnections = 100\<rparr>"
      "\<lambda>i. if i = 0 then None else Some (Plain ''connection reset'')"]
  by simp

lemma filter_update_count:
  "j < length xs \<Longrightarrow>
   length (filter P (xs[j := y])) + (if P (xs ! j) then 1 else 0)
     = length (filter P xs) + (if P y then 1 else 0)"
proof (induction xs arbitrary: j)
  case Nil
  then show ?case by simp
next
  case (Cons x xs)
  then show ?case by (cases j) auto
qed

lemma map_upt_pred: "0 < i \<Longrightarrow> map f [0 ..< i - Suc 0] @ [f (i - Suc 0)] = map f [0 ..< i]"
  by (cases i) simp_all

lemma call_step_ok:
  assumes ok: "call_ok p cv c" and r: "call_step p cv n c = (n', c')"
    and pos: "flying c \<longrightarrow> 0 < n"
  shows "call_ok p cv c' \<and> call_fn c' = call_fn c \<and>
         n' + (if flying c then 1 else 0) = n + (if flying c' then 1 else 0) \<and>
         (flying c' \<and> \<not> flying c \<longrightarrow> int n < maxConnections p)"
proof (cases "call_state c")
  case (Waiting i k err)
  with ok r show ?thesis
    by (cases k; cases "i = 0")
       (auto simp: call_step_def call_ok_def flying_def map_upt_pred split: if_splits)
next
  case (InFlight i k)
  with ok obtain k' where k: "k = Suc k'" by (cases k) (auto simp: call_ok_def)
  obtain retry e where f: "call_fn c i = (retry, e)" by (cases "call_fn c i") auto
  from ok InFlight k f have
    "(if retry then pacer_loop (call_fn c) (Suc i) k' e else (e, Suc i))
       = pacer_Call p (call_fn c)"
    by (auto simp: call_ok_def)
  with ok r InFlight k f pos show ?thesis
    by (cases retry) (auto simp: call_step_def call_ok_def flying_def)
next
  case (Finished e m)
  with ok r show ?thesis by (auto simp: call_step_def call_ok_def flying_def)
qed

lemma executor_step_ok:
  assumes ok: "executor_ok p cv fns ex"
  shows "executor_ok p cv fns (executor_step p cv j ex)"
proof (cases "j < length (calls ex)")
  case False
  with ok show ?thesis by (simp add: executor_step_def)
next
  case True
  obtain n' c' where r: "call_step p cv (in_flight ex) (calls ex ! j) = (n', c')"
    by (cases "call_step p cv (in_flight ex) (calls ex ! j)") auto
  from ok True have c: "call_ok p cv (calls ex ! j)"
    by (simp add: executor_ok_def list_all_length)
  from ok have n: "in_flight ex = length (filter flying (calls ex))"
    and m: "int (in_flight ex) \<le> max 0 (maxConnections p)"
    and f: "map call_fn (calls ex) = fns"
    and a: "list_all (call_ok p cv) (calls ex)"
    by (simp_all add: executor_ok_def)
  have "flying (calls ex ! j) \<longrightarrow> 0 < in_flight ex"
    using n True by (auto simp: filter_empty_conv)
  note s = call_step_ok[OF c r this]
  have e: "executor_step p cv j ex = \<lparr>in_flight = n', calls = (calls ex)[j := c']\<rparr>"
    using True r by (simp add: executor_step_def)
  have 1: "map call_fn ((calls ex)[j := c']) = fns"
    using f s True by (simp add: map_update) (metis list_update_id nth_map)
  have 2: "n' = length (filter flying ((calls ex)[j := c']))"
    using filter_update_count[OF True, of flying c'] s n by (auto split: if_splits)
  have 3: "int n' \<le> max 0 (maxConnections p)"
    using s m by (auto split: if_splits)
  have 4: "list_all (call_ok p cv) ((calls ex)[j := c'])"
    using a s True by (simp add: list_all_length nth_list_update)
  from e 1 2 3 4 show ?thesis by (simp add: executor_ok_def)
qed

lemma executor_run_ok:
  "executor_ok p cv fns ex \<Longrightarrow> executor_ok p cv fns (executor_run p cv sched ex)"
  by (induction sched arbitrary: ex) (simp_all add: executor_step_ok)

lemma executor_start_ok: "executor_ok p cv fns (executor_start p fns)"
  by (simp add: executor_ok_def executor_start_def list_all_iff call_ok_def flying_def
      pacer_Call_def comp_def)

lemma Calculate_increasing:
  "0 < unit_sleep cv \<Longrightarrow> Calculate cv k < Calculate cv (Suc k)"
proof -
  assume u: "0 < unit_sleep cv"
  then have "jitter cv k mod unit_sleep cv < unit_sleep cv" by simp
  also have "unit_sleep cv \<le> unit_sleep cv * 2 ^ k" by simp
  finally have "unit_sleep cv * 2 ^ k + jitter cv k mod unit_sleep cv
                  < unit_sleep cv * 2 ^ k + unit_sleep cv * 2 ^ k" by simp
  then show ?thesis by (simp add: Calculate_def)
qed

lemma Calculate_sorted:
  "0 < unit_sleep cv \<Longrightarrow> sorted_wrt (<) (map (Calculate cv) [0 ..< m])"
proof -
  assume u: "0 < unit_sleep cv"
  have "Calculate cv i < Calculate cv j" if "i < j" for i j
    using that
  proof (induction j)
    case 0
    then show ?case by simp
  next
    case (Suc j)
    show ?case
    proof (cases "i = j")
      case True
      then show ?thesis using Calculate_increasing[OF u] by simp
    next
      case False
      with Suc have "Calculate cv i < Calculate cv j" by simp
      also have "\<dots> < Calculate cv (Suc j)" by (rule Calculate_increasing[OF u])
      finally show ?thesis .
    qed
  qed
  then show ?thesis
    by (simp add: sorted_wrt_map sorted_wrt_iff_nth_less)
qed

lemma pacer_loop_bound: "snd (pacer_loop fn i k err) \<le> i + k"
proof (induction k arbitrary: i err)
  case 0
  then show ?case by simp
next
  case (Suc k)
  show ?case using Suc[of "Suc i" "snd (fn i)"] by (cases "fn i") auto
qed

lemma finished_stays:
  "call_state (calls ex ! 0) = Finished e m \<Longrightarrow>
   executor_run p cv (replicate n 0) ex = ex"
proof (induction n)
  case 0
  then show ?case by simp
next
  case (Suc n)
  then have "executor_step p cv 0 ex = ex"
    by (cases ex) (auto simp: executor_step_def call_step_def)
  with Suc show ?case by simp
qed

lemma single_progress:
  assumes cap: "0 < maxConnections p" and w: "call_state c = Waiting i k err"
  shows "\<exists>e m. call_state (calls (executor_run p cv (replicate (2 * k + 1) 0)
                   \<lparr>in_flight = 0, calls = [c]\<rparr>) ! 0) = Finished e m"
  using w
proof (induction k arbitrary: c i err)
  case 0
  then show ?case by (simp add: executor_step_def call_step_def)
next
  case (Suc k)
  let ?c1 = "c\<lparr>call_state := InFlight i (Suc k),
               sleeps := sleeps c @ (if i = 0 then [] else [Calculate (cv (calculator p)) (i - 1)])\<rparr>"
  have s1: "executor_step p cv 0 \<lparr>in_flight = 0, calls = [c]\<rparr>
              = \<lparr>in_flight = Suc 0, calls = [?c1]\<rparr>"
    using Suc.prems cap by (simp add: executor_step_def call_step_def)
  obtain retry e where f: "call_fn c i = (retry, e)" by (cases "call_fn c i") auto
  show ?case
  proof (cases retry)
    case True
    let ?c2 = "?c1\<lparr>call_state := Waiting (Suc i) k e\<rparr>"
    have s2: "executor_step p cv 0 \<lparr>in_flight = Suc 0, calls = [?c1]\<rparr>
                = \<lparr>in_flight = 0, calls = [?c2]\<rparr>"
      using f True by (simp add: executor_step_def call_step_def)
    have "call_state ?c2 = Waiting (Suc i) k e" by simp
    from Suc.IH[OF this] s1 s2 show ?thesis by simp
  next
    case False
    let ?c2 = "?c1\<lparr>call_state := Finished e (Suc i)\<rparr>"
    have s2: "executor_step p cv 0 \<lparr>in_flight = Suc 0, calls = [?c1]\<rparr>
                = \<lparr>in_flight = 0, calls = [?c2]\<rparr>"
      using f False by (simp add: executor_step_def call_step_def)
    have "executor_run p cv (replicate (2 * k + 1) 0) \<lparr>in_flight = 0, calls = [?c2]\<rparr>
            = \<lparr>in_flight = 0, calls = [?c2]\<rparr>"
      by (rule finished_stays[where e = e and m = "Suc i"]) simp
    with s1 s2 show ?thesis by simp
  qed
qed

lemma executor_facts:
  assumes ex: "ex = executor_run p cv sched (executor_start p fns)"
  shows "int (in_flight ex) \<le> max 0 (maxConnections p)"
    and "in_flight ex = length (filter flying (calls ex))"
    and "j < length fns \<Longrightarrow> 0 < unit_sleep (cv (calculator p)) \<Longrightarrow>
         sorted_wrt (<) (sleeps (calls ex ! j))"
    and "j < length fns \<Longrightarrow> call_state (calls ex ! j) = Finished e m \<Longrightarrow>
         (e, m) = pacer_Call p (fns ! j) \<and>
         sleeps (calls ex ! j) = map (Calculate (cv (calculator p))) [0 ..< m - 1]"
proof -
  from ex have ok: "executor_ok p cv fns ex"
    by (simp add: executor_run_ok executor_start_ok)
  then show "int (in_flight ex) \<le> max 0 (maxConnections p)"
    and "in_flight ex = length (filter flying (calls ex))"
    by (simp_all add: executor_ok_def)
  from ok have l: "length (calls ex) = length fns"
    and f: "\<And>j. j < length fns \<Longrightarrow> call_fn (calls ex ! j) = fns ! j"
    by (auto simp: executor_ok_def)
  {
    assume j: "j < length fns"
    with ok l have c: "call_ok p cv (calls ex ! j)"
      by (simp add: executor_ok_def list_all_length)
    {
      assume "0 < unit_sleep (cv (calculator p))"
      with c show "sorted_wrt (<) (sleeps (calls ex ! j))"
        by (cases "call_state (calls ex ! j)") (simp_all add: call_ok_def Calculate_sorted)
    }
    {
      assume "call_state (calls ex ! j) = Finished e m"
      with c f[OF j] show "(e, m) = pacer_Call p (fns ! j) \<and>
         sleeps (calls ex ! j) = map (Calculate (cv (calculator p))) [0 ..< m - 1]"
        by (simp add: call_ok_def)
    }
  }
qed

lemma crowd_trace:
  "in_flight crowd_blocked = 10"
  "call_state (calls crowd_blocked ! 10) = Waiting 0 5 None"
  "in_flight crowd_served = 10"
  "call_state (calls crowd_served ! 0) = Finished None 3"
  "sleeps (calls crowd_served ! 0) = [1250, 2387]"
  "call_state (calls crowd_served ! 10) = InFlight 0 5"
  "pacer_Call (main_pacer_default pacer_New) flaky_call = (None, 3)"
  by code_simp+

text \<open>
  C9. \<open>main\<close> configures the executor with 5 attempts, 10 connections and the Google
  Drive calculator in the default profile, and with 50 attempts, 100 connections and the
  default calculator in the aggressive profile. A call never makes more attempts than
  configured; one whose attempts all answer retry makes exactly that many and returns
  the error of the last; one that stops answering retry on attempt \<open>k\<close> within the
  budget returns the answer of that attempt. At the call sites, a listing whose attempts
  all fail with a retryable error returns the wrapped error of the last attempt, and a
  restore whose attempts all do ends with the error of the last. In every state of the
  executor, under every
  schedule, the calls in flight are at most \<open>maxConnections\<close> (10 and 100 in the two
  profiles); a waiting call is admitted when fewer are in flight and stays waiting when
  the cap is reached. The sleeps of a call are the values of the curve of the installed
  calculator, one before each retry, and they increase strictly from one retry to the
  next; a call that has finished returns what \<open>pacer_Call\<close> returns. A call alone at
  the executor finishes within two steps per attempt.
\<close>

theorem pacer_configuration_and_budget:
  "retries (main_pacer_default new) = 5 \<and>
   maxConnections (main_pacer_default new) = 10 \<and>
   calculator (main_pacer_default new) = NewGoogleDrive \<and>
   retries (main_pacer_aggressive new) = 50 \<and>
   maxConnections (main_pacer_aggressive new) = 100 \<and>
   calculator (main_pacer_aggressive new) = NewDefault \<and>
   (0 < retries p \<and> (\<forall>i. int i < retries p \<longrightarrow> fst (fn i)) \<longrightarrow>
      pacer_Call p fn = (snd (fn (nat (retries p) - 1)), nat (retries p))) \<and>
   (int k < retries p \<and> (\<forall>i<k. fst (fn i)) \<and> \<not> fst (fn k) \<longrightarrow>
      pacer_Call p fn = (snd (fn k), Suc k)) \<and>
   snd (pacer_Call p fn) \<le> nat (retries p) \<and>
   (0 < retries p \<and>
    (\<forall>i. int i < retries p \<longrightarrow>
       files_list srv call i = Inl (errs i) \<and> spec_retryable (Some (errs i))) \<longrightarrow>
      paged_list p srv call
        = PageErr (Errorf ''Unable to retrieve files: '' (errs (nat (retries p) - 1)))) \<and>
   (0 < retries p \<and>
    (\<forall>i. int i < retries p \<longrightarrow> spec_retryable (files_untrash srv (file_Id child) i)) \<longrightarrow>
      restore_result p srv child = files_untrash srv (file_Id child) (nat (retries p) - 1) \<and>
      restore_result p srv child \<noteq> None) \<and>
   (ex = executor_run p cv sched (executor_start p fns) \<longrightarrow>
      int (in_flight ex) \<le> max 0 (maxConnections p) \<and>
      in_flight ex = length (filter flying (calls ex)) \<and>
      (p = main_pacer_default new \<longrightarrow> in_flight ex \<le> 10) \<and>
      (p = main_pacer_aggressive new \<longrightarrow> in_flight ex \<le> 100) \<and>
      (\<forall>j<length fns.
         (0 < unit_sleep (cv (calculator p)) \<longrightarrow> sorted_wrt (<) (sleeps (calls ex ! j))) \<and>
         (\<forall>e m. call_state (calls ex ! j) = Finished e m \<longrightarrow>
            (e, m) = pacer_Call p (fns ! j) \<and>
            sleeps (calls ex ! j) = map (Calculate (cv (calculator p))) [0 ..< m - 1]))) \<and>
   (0 < unit_sleep (cv (calculator p)) \<longrightarrow>
      Calculate (cv (calculator p)) k < Calculate (cv (calculator p)) (Suc k)) \<and>
   (call_state c = Waiting i (Suc k) err \<and> maxConnections p \<le> int n \<longrightarrow>
      call_step p cv n c = (n, c)) \<and>
   (call_state c = Waiting i (Suc k) err \<and> int n < maxConnections p \<longrightarrow>
      fst (call_step p cv n c) = Suc n \<and>
      call_state (snd (call_step p cv n c)) = InFlight i (Suc k)) \<and>
   (0 < maxConnections p \<longrightarrow>
      (\<exists>e m. call_state (calls (executor_run p cv (replicate (2 * nat (retries p) + 1) 0)
                                   (executor_start p [fn])) ! 0) = Finished e m))"
proof -
  have cfg: "retries (main_pacer_default new) = 5 \<and>
   maxConnections (main_pacer_default new) = 10 \<and>
   calculator (main_pacer_default new) = NewGoogleDrive \<and>
   retries (main_pacer_aggressive new) = 50 \<and>
   maxConnections (main_pacer_aggressive new) = 100 \<and>
   calculator (main_pacer_aggressive new) = NewDefault"
    by (simp add: main_pacer_default_def main_pacer_aggressive_def SetCalculator_def
        SetRetries_def SetMaxConnections_def)
  have b1: "0 < retries p \<and> (\<forall>i. int i < retries p \<longrightarrow> fst (fn i)) \<longrightarrow>
      pacer_Call p fn = (snd (fn (nat (retries p) - 1)), nat (retries p))"
    using pacer_Call_exhaust[of p fn] by simp
  have b2: "int k < retries p \<and> (\<forall>i<k. fst (fn i)) \<and> \<not> fst (fn k) \<longrightarrow>
      pacer_Call p fn = (snd (fn k), Suc k)"
    using pacer_Call_stop[of k p fn] by simp
  have b3: "snd (pacer_Call p fn) \<le> nat (retries p)"
    using pacer_loop_bound[of fn 0 "nat (retries p)" None] by (simp add: pacer_Call_def)
  have s1: "paged_list p srv call
        = PageErr (Errorf ''Unable to retrieve files: '' (errs (nat (retries p) - 1)))"
    if r: "0 < retries p" and a: "\<forall>i. int i < retries p \<longrightarrow>
       files_list srv call i = Inl (errs i) \<and> spec_retryable (Some (errs i))"
  proof -
    let ?f = "\<lambda>i. shouldRetry (reply_err (files_list srv call i))"
    from a have "\<forall>i. int i < retries p \<longrightarrow> fst (?f i)"
      by (simp add: shouldRetry_fst reply_err_def)
    from pacer_Call_exhaust[OF r this]
    have "pacer_Call p ?f = (reply_err (files_list srv call (nat (retries p) - 1)), nat (retries p))"
      by (simp add: shouldRetry_snd)
    moreover from a r have "files_list srv call (nat (retries p) - 1) = Inl (errs (nat (retries p) - 1))"
      by simp
    ultimately show ?thesis by (simp add: paged_list_def reply_err_def)
  qed
  have s2: "restore_result p srv child = files_untrash srv (file_Id child) (nat (retries p) - 1) \<and>
      restore_result p srv child \<noteq> None"
    if r: "0 < retries p" and a: "\<forall>i. int i < retries p \<longrightarrow>
       spec_retryable (files_untrash srv (file_Id child) i)"
  proof -
    let ?f = "\<lambda>i. shouldRetry (files_untrash srv (file_Id child) i)"
    from a have "\<forall>i. int i < retries p \<longrightarrow> fst (?f i)" by (simp add: shouldRetry_fst)
    from pacer_Call_exhaust[OF r this]
    have e: "restore_result p srv child = files_untrash srv (file_Id child) (nat (retries p) - 1)"
      by (simp add: restore_result_def shouldRetry_snd)
    from a r have "spec_retryable (files_untrash srv (file_Id child) (nat (retries p) - 1))"
      by simp
    then have "files_untrash srv (file_Id child) (nat (retries p) - 1) \<noteq> None"
      by (auto simp: spec_retryable_def split: option.splits)
    with e show ?thesis by simp
  qed
  have run: "int (in_flight ex) \<le> max 0 (maxConnections p) \<and>
      in_flight ex = length (filter flying (calls ex)) \<and>
      (p = main_pacer_default new \<longrightarrow> in_flight ex \<le> 10) \<and>
      (p = main_pacer_aggressive new \<longrightarrow> in_flight ex \<le> 100) \<and>
      (\<forall>j<length fns.
         (0 < unit_sleep (cv (calculator p)) \<longrightarrow> sorted_wrt (<) (sleeps (calls ex ! j))) \<and>
         (\<forall>e m. call_state (calls ex ! j) = Finished e m \<longrightarrow>
            (e, m) = pacer_Call p (fns ! j) \<and>
            sleeps (calls ex ! j) = map (Calculate (cv (calculator p))) [0 ..< m - 1]))"
    if ex: "ex = executor_run p cv sched (executor_start p fns)"
  proof -
    note f = executor_facts[OF ex]
    from f(1) cfg have "p = main_pacer_default new \<longrightarrow> in_flight ex \<le> 10"
      and "p = main_pacer_aggressive new \<longrightarrow> in_flight ex \<le> 100"
      by auto
    with f show ?thesis by blast
  qed
  have inc: "0 < unit_sleep (cv (calculator p)) \<longrightarrow>
      Calculate (cv (calculator p)) k < Calculate (cv (calculator p)) (Suc k)"
    by (simp add: Calculate_increasing)
  have blk: "call_state c = Waiting i (Suc k) err \<and> maxConnections p \<le> int n \<longrightarrow>
      call_step p cv n c = (n, c)"
    by (simp add: call_step_def)
  have adm: "call_state c = Waiting i (Suc k) err \<and> int n < maxConnections p \<longrightarrow>
      fst (call_step p cv n c) = Suc n \<and>
      call_state (snd (call_step p cv n c)) = InFlight i (Suc k)"
    by (simp add: call_step_def)
  have prog: "0 < maxConnections p \<longrightarrow>
      (\<exists>e m. call_state (calls (executor_run p cv (replicate (2 * nat (retries p) + 1) 0)
                                   (executor_start p [fn])) ! 0) = Finished e m)"
    using single_progress[of p "\<lparr>call_fn = fn, call_state = Waiting 0 (nat (retries p)) None,
        sleeps = []\<rparr>" 0 "nat (retries p)" None cv]
    by (simp add: executor_start_def)
  from cfg b1 b2 b3 s1 s2 run inc blk adm prog show ?thesis by blast
qed

theorem pacer_configuration_and_budget_witness:
  "pacer_Call (main_pacer_default pacer_New)
     (\<lambda>i. shouldRetry (Some (Googleapi (GoogleapiError 503 [])))) =
     (Some (Googleapi (GoogleapiError 503 [])), 5) \<and>
   pacer_Call (main_pacer_default pacer_New) flaky_call = (None, 3) \<and>
   paged_list (main_pacer_default pacer_New) busy_store (getFolderPage_call_conc ''A'' '''')
     = PageErr (Errorf ''Unable to retrieve files: '' busy_error) \<and>
   restore_result (main_pacer_default pacer_New) busy_store file_F1 = Some busy_error \<and>
   0 < maxConnections (main_pacer_default pacer_New) \<and>
   0 < unit_sleep (example_curves (calculator (main_pacer_default pacer_New))) \<and>
   in_flight crowd_blocked = 10 \<and>
   call_state (calls crowd_blocked ! 10) = Waiting 0 5 None \<and>
   call_step (main_pacer_default pacer_New) example_curves 10 (calls crowd_blocked ! 10)
     = (10, calls crowd_blocked ! 10) \<and>
   call_state (snd (call_step (main_pacer_default pacer_New) example_curves 9
                      (calls crowd_blocked ! 10))) = InFlight 0 5 \<and>
   in_flight crowd_served \<le> 10 \<and>
   in_flight crowd_served = length (filter flying (calls crowd_served)) \<and>
   call_state (calls crowd_served ! 0) = Finished None 3 \<and>
   sleeps (calls crowd_served ! 0)
     = map (Calculate (example_curves NewGoogleDrive)) [0 ..< 2] \<and>
   sleeps (calls crowd_served ! 0) = [1250, 2387] \<and>
   sorted_wrt (<) (sleeps (calls crowd_served ! 0)) \<and>
   Calculate (example_curves NewGoogleDrive) 0 < Calculate (example_curves NewGoogleDrive) 1 \<and>
   (\<exists>e m. call_state (calls (executor_run (main_pacer_default pacer_New) example_curves
                                (replicate 11 0)
                                (executor_start (main_pacer_default pacer_New) [flaky_call])) ! 0)
            = Finished e m)"
proof -
  let ?p = "main_pacer_default pacer_New"
  let ?e = "Some (Googleapi (GoogleapiError 503 []))"
  have r: "retries ?p = 5" and m: "maxConnections ?p = 10" and g: "calculator ?p = NewGoogleDrive"
    by (simp_all add: main_pacer_default_def SetCalculator_def SetRetries_def
        SetMaxConnections_def)
  have u: "0 < unit_sleep (example_curves (calculator ?p))"
    by (simp add: g example_curves_def)
  have a: "fst (shouldRetry ?e)" by (simp add: shouldRetry_def)
  have o: "spec_retryable (Some busy_error)"
    by (simp add: busy_error_def spec_retryable_def)
  have f0: "fst (flaky_call 0)" and f1: "fst (flaky_call 1)" and f2: "\<not> fst (flaky_call 2)"
    by (simp_all add: flaky_call_def shouldRetry_def)
  have f: "\<forall>i<2. fst (flaky_call i)"
  proof (intro allI impI)
    fix i :: nat assume "i < 2"
    then have "i = 0 \<or> i = 1" by auto
    with f0 f1 show "fst (flaky_call i)" by auto
  qed
  note t1 = pacer_configuration_and_budget[where p = ?p and fn = "\<lambda>i. shouldRetry ?e"]
  note t2 = pacer_configuration_and_budget[where p = ?p and fn = flaky_call and k = 2 and ex = crowd_served
      and cv = example_curves and sched = "[0, 1, 2, 3, 4, 5, 6, 7, 8, 9, 10, 0, 0, 0, 0, 0, 10]"
      and fns = "replicate 11 flaky_call" and new = pacer_New]
  note t3 = pacer_configuration_and_budget[where p = ?p and cv = example_curves and k = 4 and i = 0 and err = None
      and c = "calls crowd_blocked ! 10" and n = 10]
  note t4 = pacer_configuration_and_budget[where p = ?p and cv = example_curves and k = 4 and i = 0 and err = None
      and c = "calls crowd_blocked ! 10" and n = 9]
  note t5 = pacer_configuration_and_budget[where p = ?p and cv = example_curves and k = 0]
  note t6 = pacer_configuration_and_budget[where p = ?p and srv = busy_store
      and call = "getFolderPage_call_conc ''A'' ''''" and errs = "\<lambda>i. busy_error"
      and child = file_F1]
  have w1: "pacer_Call ?p (\<lambda>i. shouldRetry ?e) = (?e, 5)"
    using t1[THEN conjunct2, THEN conjunct2, THEN conjunct2, THEN conjunct2,
        THEN conjunct2, THEN conjunct2, THEN conjunct1] r a by (simp add: shouldRetry_snd)
  have w2: "pacer_Call ?p flaky_call = (None, 3)"
    using t2[THEN conjunct2, THEN conjunct2, THEN conjunct2, THEN conjunct2,
        THEN conjunct2, THEN conjunct2, THEN conjunct2, THEN conjunct1] r f f2 by (simp add: flaky_call_def shouldRetry_def)
  have v1: "paged_list ?p busy_store (getFolderPage_call_conc ''A'' '''')
              = PageErr (Errorf ''Unable to retrieve files: '' busy_error)"
    using t6[THEN conjunct2, THEN conjunct2, THEN conjunct2, THEN conjunct2,
        THEN conjunct2, THEN conjunct2, THEN conjunct2, THEN conjunct2,
        THEN conjunct2, THEN conjunct1] r o by (simp add: busy_store_def)
  have v2: "restore_result ?p busy_store file_F1 = Some busy_error"
    using t6[THEN conjunct2, THEN conjunct2, THEN conjunct2, THEN conjunct2,
        THEN conjunct2, THEN conjunct2, THEN conjunct2, THEN conjunct2,
        THEN conjunct2, THEN conjunct2, THEN conjunct1] r o by (simp add: busy_store_def)
  have e: "crowd_served = executor_run ?p example_curves [0, 1, 2, 3, 4, 5, 6, 7, 8, 9, 10, 0, 0, 0, 0, 0, 10]
             (executor_start ?p (replicate 11 flaky_call))"
    by (simp only: crowd_served_def crowd_start_def)
  note run = t2[THEN conjunct2, THEN conjunct2, THEN conjunct2, THEN conjunct2,
        THEN conjunct2, THEN conjunct2, THEN conjunct2, THEN conjunct2,
        THEN conjunct2, THEN conjunct2, THEN conjunct2, THEN conjunct1, THEN mp, OF e]
  have w3: "in_flight crowd_served \<le> 10"
    using run[THEN conjunct2, THEN conjunct2, THEN conjunct1] by simp
  have w4: "in_flight crowd_served = length (filter flying (calls crowd_served))"
    by (rule run[THEN conjunct2, THEN conjunct1])
  note per = run[THEN conjunct2, THEN conjunct2, THEN conjunct2, THEN conjunct2,
                 THEN spec, of 0, THEN mp]
  have per0: "(0 < unit_sleep (example_curves (calculator ?p)) \<longrightarrow>
                 sorted_wrt (<) (sleeps (calls crowd_served ! 0))) \<and>
              (\<forall>e m. call_state (calls crowd_served ! 0) = Finished e m \<longrightarrow>
                 (e, m) = pacer_Call ?p (replicate 11 flaky_call ! 0) \<and>
                 sleeps (calls crowd_served ! 0)
                   = map (Calculate (example_curves (calculator ?p))) [0 ..< m - 1])"
    by (rule per) simp
  from per0 u have w5: "sorted_wrt (<) (sleeps (calls crowd_served ! 0))" by blast
  from per0 crowd_trace(4)
  have w6: "sleeps (calls crowd_served ! 0)
              = map (Calculate (example_curves (calculator ?p))) [0 ..< 3 - 1]" by blast
  then have w6': "sleeps (calls crowd_served ! 0)
              = map (Calculate (example_curves NewGoogleDrive)) [0 ..< 2]"
    by (simp add: g)
  have w7: "call_step ?p example_curves 10 (calls crowd_blocked ! 10)
              = (10, calls crowd_blocked ! 10)"
    using t3[THEN conjunct2, THEN conjunct2, THEN conjunct2, THEN conjunct2,
        THEN conjunct2, THEN conjunct2, THEN conjunct2, THEN conjunct2,
        THEN conjunct2, THEN conjunct2, THEN conjunct2, THEN conjunct2,
        THEN conjunct2, THEN conjunct1] crowd_trace(2) m by simp
  have w8: "call_state (snd (call_step ?p example_curves 9 (calls crowd_blocked ! 10)))
              = InFlight 0 5"
    using t4[THEN conjunct2, THEN conjunct2, THEN conjunct2, THEN conjunct2,
        THEN conjunct2, THEN conjunct2, THEN conjunct2, THEN conjunct2,
        THEN conjunct2, THEN conjunct2, THEN conjunct2, THEN conjunct2,
        THEN conjunct2, THEN conjunct2, THEN conjunct1] crowd_trace(2) m by simp
  have w9: "Calculate (example_curves NewGoogleDrive) 0
              < Calculate (example_curves NewGoogleDrive) 1"
    using t5[THEN conjunct2, THEN conjunct2, THEN conjunct2, THEN conjunct2,
        THEN conjunct2, THEN conjunct2, THEN conjunct2, THEN conjunct2,
        THEN conjunct2, THEN conjunct2, THEN conjunct2, THEN conjunct2,
        THEN conjunct1] u by (simp add: g)
  have w10: "\<exists>e m. call_state (calls (executor_run ?p example_curves (replicate 11 0)
                                  (executor_start ?p [flaky_call])) ! 0) = Finished e m"
    using t2[THEN conjunct2, THEN conjunct2, THEN conjunct2, THEN conjunct2,
        THEN conjunct2, THEN conjunct2, THEN conjunct2, THEN conjunct2,
        THEN conjunct2, THEN conjunct2, THEN conjunct2, THEN conjunct2,
        THEN conjunct2, THEN conjunct2, THEN conjunct2] m r by simp
  from w1 w2 v1 v2 m u crowd_trace(1,2,4,5) w3 w4 w5 w6' w7 w8 w9 w10 show ?thesis by simp
qed

section \<open>The listing request: proofs\<close>

lemma escape_plain: "plain_id s \<Longrightarrow> escape s = s"
  by (induction s) (auto simp: plain_id_def)

text \<open>
  C5, as the builders have it. The request of every listing asks for 1000 items, the
  largest page the remote API serves. For a scope id with no quote and no backslash in
  it, the query of the two programs of main.go is the text of the term that selects
  exactly the items with the scope among their parents (any item for the empty scope,
  the store root) that are a folder or trashed. The sequential program lists the store
  root through \<open>getPage\<close>, with no parent restriction, and a folder through
  \<open>getFolderPage\<close>, which names the parent for every id, the empty one too. The id
  goes between the quotes as it is, so nothing is said for an id with a quote or a
  backslash.
\<close>

theorem listing_request_filter:
  "MaxResults (getFolderPage_call folderId pageToken) = drive_max_page_size \<and>
   MaxResults (getFolderPage_call_conc folderId pageToken) = drive_max_page_size \<and>
   MaxResults (getFolderPage_call_seq folderId pageToken) = drive_max_page_size \<and>
   MaxResults (getPage_call_seq pageToken) = drive_max_page_size \<and>
   (plain_id folderId \<longrightarrow>
      Q (getFolderPage_call folderId pageToken) = Some (render (scope_query folderId)) \<and>
      Q (getFolderPage_call_conc folderId pageToken) = Some (render (scope_query folderId)) \<and>
      Q (getFolderPage_call_seq folderId pageToken)
        = Some (render (QAnd (InParents folderId)
                          (QOr (MimeTypeIs folder_mime) (TrashedIs True))))) \<and>
   Q (getPage_call_seq pageToken) = Some (render (scope_query '''')) \<and>
   selects (scope_query folderId) it = spec_filter folderId it \<and>
   selects (QAnd (InParents folderId) (QOr (MimeTypeIs folder_mime) (TrashedIs True))) it
     = (folderId \<in> set (item_parents it) \<and> (item_mimeType it = folder_mime \<or> item_trashed it))"
  by (auto simp: getFolderPage_call_def getFolderPage_call_conc_def
      getFolderPage_call_seq_def getPage_call_seq_def Let_def drive_max_page_size_def
      scope_query_def spec_filter_def quoted_def folder_mime_def escape_plain)

theorem listing_request_filter_witness:
  "plain_id ''0B1xyz'' \<and>
   Q (getFolderPage_call ''0B1xyz'' ''t1'') =
     Some '''0B1xyz' in parents and (mimeType = 'application/vnd.google-apps.folder' or trashed = true)'' \<and>
   Q (getFolderPage_call_seq ''0B1xyz'' ''t1'') = Q (getFolderPage_call ''0B1xyz'' ''t1'') \<and>
   PageToken (getFolderPage_call ''0B1xyz'' ''t1'') = Some ''t1'' \<and>
   MaxResults (getFolderPage_call ''0B1xyz'' ''t1'') = 1000 \<and>
   selects (scope_query ''0B1xyz'')
     \<lparr>item_parents = [''0B1xyz''], item_mimeType = ''text/plain'', item_trashed = True\<rparr> \<and>
   \<not> selects (scope_query ''0B1xyz'')
     \<lparr>item_parents = [''other''], item_mimeType = ''text/plain'', item_trashed = True\<rparr> \<and>
   \<not> selects (scope_query ''0B1xyz'')
     \<lparr>item_parents = [''0B1xyz''], item_mimeType = ''text/plain'', item_trashed = False\<rparr>"
  using listing_request_filter[of "''0B1xyz''" "''t1''"]
  by (simp add: plain_id_def getFolderPage_call_def Let_def scope_query_def folder_mime_def)

text \<open>
  An id is put between the quotes of the query unescaped. For the id
  \<open>x' in parents or 'y\<close> the text sent is the text of another term, which selects
  a trashed child of \<open>x\<close>, an item that is no child of the scope. And the sequential
  \<open>getFolderPage\<close> names a parent for the empty scope too, so it leaves out a trashed
  item that the filter for the store root takes.
\<close>

theorem unescaped_id_changes_filter:
  "\<not> plain_id quote_id \<and>
   Q (getFolderPage_call quote_id '''') = Some (render quote_query) \<and>
   Q (getFolderPage_call_conc quote_id '''') = Some (render quote_query) \<and>
   Q (getFolderPage_call_seq quote_id '''') = Some (render quote_query) \<and>
   Q (getFolderPage_call quote_id '''') \<noteq> Some (render (scope_query quote_id)) \<and>
   selects quote_query
     \<lparr>item_parents = [''x''], item_mimeType = ''text/plain'', item_trashed = True\<rparr> \<and>
   \<not> spec_filter quote_id
     \<lparr>item_parents = [''x''], item_mimeType = ''text/plain'', item_trashed = True\<rparr> \<and>
   Q (getFolderPage_call_seq '''' '''')
     = Some (render (QAnd (InParents '''') (QOr (MimeTypeIs folder_mime) (TrashedIs True)))) \<and>
   \<not> selects (QAnd (InParents '''') (QOr (MimeTypeIs folder_mime) (TrashedIs True)))
     \<lparr>item_parents = [''x''], item_mimeType = ''text/plain'', item_trashed = True\<rparr> \<and>
   spec_filter ''''
     \<lparr>item_parents = [''x''], item_mimeType = ''text/plain'', item_trashed = True\<rparr>"
  by (simp add: quote_id_def quote_query_def plain_id_def getFolderPage_call_def
      getFolderPage_call_conc_def getFolderPage_call_seq_def Let_def scope_query_def
      spec_filter_def quoted_def folder_mime_def)

section \<open>The concurrent programs: proofs\<close>


lemma tot_simps [simp]:
  "tot f [] = 0" "tot f (x # xs) = f x + tot f xs" "tot f (xs @ ys) = tot f xs + tot f ys"
  by (simp_all add: tot_def)

lemma thread_tot_simps [simp]:
  "thread_tot f None = 0" "thread_tot f (Some st) = tot f st"
  by (simp_all add: thread_tot_def)

lemma tot_map_Some [simp]: "tot (thread_tot f) (map Some sp) = tot (tot f) sp"
  by (induction sp) simp_all

lemma tot_update:
  "j < length xs \<Longrightarrow> tot h (xs[j := x]) + h (xs ! j) = tot h xs + h x"
proof (induction xs arbitrary: j)
  case Nil
  then show ?case by simp
next
  case (Cons a xs)
  show ?case
  proof (cases j)
    case 0
    then show ?thesis by (simp add: ac_simps)
  next
    case (Suc m)
    with Cons.prems have "m < length xs" by simp
    from Cons.IH[OF this] have "tot h (xs[m := x]) + h (xs ! m) = tot h xs + h x" .
    then have "h a + (tot h (xs[m := x]) + h (xs ! m)) = h a + (tot h xs + h x)" by simp
    with Suc show ?thesis by (simp add: ac_simps)
  qed
qed

lemma events_wg_Done [simp]: "events (wg_Done s) = events s"
  by (simp add: wg_Done_def)

lemma step_balanced:
  assumes law: "\<And>fr s frs sp s'. ex fr s = (frs, sp, s') \<Longrightarrow>
      \<exists>new. events s' = events s @ new \<and>
        tot dn new + tot pd frs + tot (tot pd) sp = tot sr new + pd fr"
    and bal: "balanced dn pd sr (k :: 'b :: cancel_comm_monoid_add) c"
  shows "balanced dn pd sr k (step ex i c)"
proof (cases "exit_code (sh c) \<noteq> None")
  case True
  with bal show ?thesis by (simp add: step_def)
next
  case live: False
  let ?D = "tot dn (events (sh c))" and ?S = "tot sr (events (sh c))"
  let ?G = "tot (thread_tot pd) (goroutines c)"
  from bal have b: "?D + (tot pd (main_thread c) + ?G) = ?S + k"
    by (simp add: balanced_def pending_def)
  show ?thesis
  proof (cases i)
    case 0
    show ?thesis
    proof (cases "main_thread c")
      case Nil
      with bal live 0 show ?thesis by (simp add: step_def balanced_def pending_def)
    next
      case (Cons fr rest)
      obtain frs sp s' where e: "ex fr (sh c) = (frs, sp, s')" by (cases "ex fr (sh c)") auto
      from law[OF e] obtain new where n: "events s' = events (sh c) @ new"
        and l: "tot dn new + tot pd frs + tot (tot pd) sp = tot sr new + pd fr" by blast
      have "?D + tot dn new + (tot pd frs + tot pd rest + (?G + tot (tot pd) sp))
          = (tot dn new + tot pd frs + tot (tot pd) sp) + (?D + tot pd rest + ?G)"
        by (simp add: ac_simps)
      also have "\<dots> = (tot sr new + pd fr) + (?D + tot pd rest + ?G)" by (simp only: l)
      also have "\<dots> = tot sr new + (?D + (tot pd (main_thread c) + ?G))"
        using Cons by (simp add: ac_simps)
      also have "\<dots> = ?S + tot sr new + k" by (simp only: b) (simp add: ac_simps)
      finally show ?thesis using live 0 Cons e n
        by (simp add: step_def balanced_def pending_def ac_simps)
    qed
  next
    case (Suc j)
    show ?thesis
    proof (cases "j < length (goroutines c)")
      case False
      with bal live Suc show ?thesis by (simp add: step_def)
    next
      case j: True
      show ?thesis
      proof (cases "goroutines c ! j")
        case None
        with bal live Suc j show ?thesis by (simp add: step_def)
      next
        case (Some st)
        show ?thesis
        proof (cases st)
          case Nil
          from tot_update[OF j, of "thread_tot pd" None] Some Nil
          have "tot (thread_tot pd) ((goroutines c)[j := None]) = ?G" by simp
          with bal live Suc j Some Nil show ?thesis
            by (simp add: step_def balanced_def pending_def)
        next
          case (Cons fr rest)
          obtain frs sp s' where e: "ex fr (sh c) = (frs, sp, s')" by (cases "ex fr (sh c)") auto
          from law[OF e] obtain new where n: "events s' = events (sh c) @ new"
            and l: "tot dn new + tot pd frs + tot (tot pd) sp = tot sr new + pd fr" by blast
          let ?G' = "tot (thread_tot pd) ((goroutines c)[j := Some (frs @ rest)])"
          from tot_update[OF j, of "thread_tot pd" "Some (frs @ rest)"] Some Cons
          have u: "?G' + (pd fr + tot pd rest) = ?G + (tot pd frs + tot pd rest)" by simp
          have "(?D + tot dn new + (tot pd (main_thread c) + (?G' + tot (tot pd) sp))) + (pd fr + tot pd rest)
              = ?D + tot dn new + tot pd (main_thread c) + tot (tot pd) sp + (?G' + (pd fr + tot pd rest))"
            by (simp add: ac_simps)
          also have "\<dots> = ?D + tot dn new + tot pd (main_thread c) + tot (tot pd) sp + (?G + (tot pd frs + tot pd rest))"
            by (simp only: u)
          also have "\<dots> = (tot dn new + tot pd frs + tot (tot pd) sp) + (?D + (tot pd (main_thread c) + ?G)) + tot pd rest"
            by (simp add: ac_simps)
          also have "\<dots> = (tot sr new + pd fr) + (?S + k) + tot pd rest"
            by (simp only: l b)
          also have "\<dots> = (?S + tot sr new + k) + (pd fr + tot pd rest)"
            by (simp add: ac_simps)
          finally have "?D + tot dn new + (tot pd (main_thread c) + (?G' + tot (tot pd) sp))
               = ?S + tot sr new + k" by (rule add_right_imp_eq)
          then show ?thesis using live Suc j Some Cons e n
            by (simp add: step_def balanced_def pending_def ac_simps)
        qed
      qed
    qed
  qed
qed


lemma events_emit [simp]: "events (emit e s) = events s @ [e]"
  by (simp add: emit_def)

lemma events_log_if [simp]: "events (log_if b l s) = events s @ (if b then [Logged l] else [])"
  by (simp add: log_if_def)

lemma trashed_simps [simp]:
  "trashed [] = {#}"
  "trashed (child # rest) = (if file_ExplicitlyTrashed child then {#child#} else {#}) + trashed rest"
  by (simp_all add: trashed_def)

lemma subfolders_simps [simp]:
  "subfolders [] = {#}"
  "subfolders (child # rest) =
     (if file_MimeType child = ''application/vnd.google-apps.folder'' then {#file_Id child#} else {#})
      + subfolders rest"
  by (simp_all add: subfolders_def)

lemma restore_law_dedup:
  "exec_dedup p srv verbose fr s = (frs, sp, s') \<Longrightarrow>
   \<exists>new. events s' = events s @ new \<and>
     tot restore_done new + tot restore_due frs + tot (tot restore_due) sp
       = tot trashed_found new + restore_due fr"
  by (cases "(p, srv, verbose, fr, s)" rule: exec_dedup.cases)
     (auto simp: Let_def split: page_result.splits caller.splits option.splits if_splits)

lemma restore_law_conc:
  "exec_conc p srv verbose fr s = (frs, sp, s') \<Longrightarrow>
   \<exists>new. events s' = events s @ new \<and>
     tot restore_done new + tot restore_due frs + tot (tot restore_due) sp
       = tot trashed_found new + restore_due fr"
  by (cases "(p, srv, verbose, fr, s)" rule: exec_conc.cases)
     (auto simp: Let_def split: page_result.splits caller.splits option.splits if_splits)

lemma claim_law_dedup:
  "exec_dedup p srv verbose fr s = (frs, sp, s') \<Longrightarrow>
   \<exists>new. events s' = events s @ new \<and>
     tot attempted new + tot claim_due frs + tot (tot claim_due) sp
       = tot folders_found new + claim_due fr"
  by (cases "(p, srv, verbose, fr, s)" rule: exec_dedup.cases)
     (auto simp: Let_def split: page_result.splits caller.splits option.splits if_splits)

lemma page_law_dedup:
  "exec_dedup p srv verbose fr s = (frs, sp, s') \<Longrightarrow>
   \<exists>new. events s' = events s @ new \<and>
     tot listed new + tot page_due frs + tot (tot page_due) sp
       = tot pages_owed new + page_due fr"
  by (cases "(p, srv, verbose, fr, s)" rule: exec_dedup.cases)
     (auto simp: Let_def split: page_result.splits caller.splits option.splits if_splits)


lemma sint_of_nat_small: "a < 2 ^ 63 \<Longrightarrow> sint (of_nat a :: 64 word) = int a"
proof -
  assume a: "a < 2 ^ 63"
  then have "int a < 2 ^ 63" by (metis of_nat_less_numeral_power_cancel_iff)
  then have "signed_take_bit 63 (int a) = int a"
    by (simp add: signed_take_bit_int_eq_self)
  then show ?thesis by (simp add: signed_of_nat)
qed

lemma positive_count: "a < 2 ^ 63 \<Longrightarrow> (0 <s (of_nat a :: 64 word)) = (0 < a)"
  by (simp add: word_sless_alt sint_of_nat_small)


lemma emit_fields [simp]:
  "seen (emit e s) = seen s" "countFolders (emit e s) = countFolders s"
  "countRestored (emit e s) = countRestored s" "wg (emit e s) = wg s"
  "exit_code (emit e s) = exit_code s"
  by (simp_all add: emit_def)

lemma log_if_fields [simp]:
  "seen (log_if b l s) = seen s" "countFolders (log_if b l s) = countFolders s"
  "countRestored (log_if b l s) = countRestored s" "wg (log_if b l s) = wg s"
  "exit_code (log_if b l s) = exit_code s"
  by (simp_all add: log_if_def)

lemma count_le_size: "count M x \<le> size M"
  by (metis count_le_replicate_mset_subset_eq order_refl size_mset_mono size_replicate_mset)

lemma untouched_registry_dedup:
  "exec_dedup p srv verbose fr s = (frs, sp, s') \<Longrightarrow>
   (\<And>f t c. fr \<noteq> ProcessFolder f t c) \<Longrightarrow>
   seen s' = seen s \<and> tot attempted (events s') = tot attempted (events s) \<and>
   tot claimed (events s') = tot claimed (events s)"
  by (cases "(p, srv, verbose, fr, s)" rule: exec_dedup.cases)
     (auto simp: Let_def split: page_result.splits caller.splits option.splits if_splits)

lemma registry_dedup:
  assumes e: "exec_dedup p srv verbose fr s = (frs, sp, s')"
    and r: "registry_ok s"
    and b: "size (tot attempted (events s)) < 2 ^ 63"
  shows "registry_ok s'"
proof (cases "\<exists>folderId folderTitle cl. fr = ProcessFolder folderId folderTitle cl")
  case True
  then obtain folderId folderTitle cl where ProcessFolder: "fr = ProcessFolder folderId folderTitle cl" by blast
  let ?a = "count (tot attempted (events s)) folderId"
  have "?a \<le> size (tot attempted (events s))" by (rule count_le_size)
  with b have a: "?a < 2 ^ 63" by simp
  from r have l: "lookup (seen s) folderId = of_nat ?a" by (simp add: registry_ok_def)
  have pos: "(0 <s lookup (seen s) folderId) = (0 < ?a)"
    using positive_count[OF a] l by simp
  show ?thesis
  proof (cases "0 < ?a")
    case True
    with e ProcessFolder pos have
      ev: "events s' = events s @ Skipped folderId (lookup (seen s) folderId) #
             (if verbose then [Logged (Printf (''Not processing folder ID '' @ dq @ ''%s'' @ dq @
                       '', already seen %d times, with name '' @ dq @ ''%s'' @ dq)
                 [Str folderId, Cnt (lookup (seen s) folderId), Str folderTitle])] else [])"
      and se: "seen s' = (seen s)(folderId \<mapsto> lookup (seen s) folderId + 1)"
      by (auto simp: Let_def)
    show ?thesis unfolding registry_ok_def
    proof (intro allI conjI)
      fix f
      show "lookup (seen s') f = of_nat (count (tot attempted (events s')) f)"
        using r l by (cases verbose) (auto simp: ev se registry_ok_def lookup_def)
      show "count (tot claimed (events s')) f =
            (if count (tot attempted (events s')) f = 0 then 0 else 1)"
        using r True by (cases verbose) (auto simp: ev registry_ok_def count_eq_zero_iff)
    qed
  next
    case False
    with e ProcessFolder pos have
      ev: "events s' = events s @ Claimed folderId #
             (if verbose then [Logged (Printf (''Processing folder ID '' @ dq @ ''%s'' @ dq @
                       '', seen %d times, with name '' @ dq @ ''%s'' @ dq)
                 [Str folderId, Cnt (lookup (seen s) folderId), Str folderTitle])] else [])"
      and se: "seen s' = (seen s)(folderId \<mapsto> lookup (seen s) folderId + 1)"
      by (auto simp: Let_def)
    show ?thesis unfolding registry_ok_def
    proof (intro allI conjI)
      fix f
      show "lookup (seen s') f = of_nat (count (tot attempted (events s')) f)"
        using r l by (cases verbose) (auto simp: ev se registry_ok_def lookup_def)
      show "count (tot claimed (events s')) f =
            (if count (tot attempted (events s')) f = 0 then 0 else 1)"
        using r False by (cases verbose) (auto simp: ev registry_ok_def count_eq_zero_iff)
    qed
  qed
next
  case False
  then have "\<And>f t c. fr \<noteq> ProcessFolder f t c" by blast
  from untouched_registry_dedup[OF e this] r show ?thesis by (simp add: registry_ok_def)
qed


lemma counters_dedup:
  "exec_dedup p srv verbose fr s = (frs, sp, s') \<Longrightarrow> counters_ok s \<Longrightarrow> counters_ok s'"
  by (cases "(p, srv, verbose, fr, s)" rule: exec_dedup.cases)
     (auto simp: counters_ok_def Let_def
       split: page_result.splits caller.splits option.splits if_splits)

lemma counters_conc:
  "exec_conc p srv verbose fr s = (frs, sp, s') \<Longrightarrow> counters_ok s \<Longrightarrow> counters_ok s'"
  by (cases "(p, srv, verbose, fr, s)" rule: exec_conc.cases)
     (auto simp: counters_ok_def Let_def
       split: page_result.splits caller.splits option.splits if_splits)

lemma sound_dedup:
  "exec_dedup p srv verbose fr s = (frs, sp, s') \<Longrightarrow>
   list_all (event_sound (getFolderPage p srv) (restore_result p srv)) (events s) \<Longrightarrow>
   list_all (event_sound (getFolderPage p srv) (restore_result p srv)) (events s')"
  by (cases "(p, srv, verbose, fr, s)" rule: exec_dedup.cases)
     (auto simp: Let_def restore_result_def
       split: page_result.splits caller.splits option.splits if_splits)

lemma sound_conc:
  "exec_conc p srv verbose fr s = (frs, sp, s') \<Longrightarrow>
   list_all (event_sound (getFolderPage_conc p srv) (restore_result p srv)) (events s) \<Longrightarrow>
   list_all (event_sound (getFolderPage_conc p srv) (restore_result p srv)) (events s')"
  by (cases "(p, srv, verbose, fr, s)" rule: exec_conc.cases)
     (auto simp: Let_def restore_result_def
       split: page_result.splits caller.splits option.splits if_splits)

lemma control_dedup:
  "exec_dedup p srv verbose fr s = (frs, sp, s') \<Longrightarrow>
   wg s' = wg s + int (length sp) \<and>
   (exit_code s' = Some 0 \<longrightarrow> exit_code s = Some 0) \<and>
   (fr \<noteq> WgWait \<and> fr \<noteq> ReportTotals \<longrightarrow> WgWait \<notin> set frs \<and> ReportTotals \<notin> set frs)"
  by (cases "(p, srv, verbose, fr, s)" rule: exec_dedup.cases)
     (auto simp: Let_def split: page_result.splits caller.splits option.splits if_splits)

lemma control_conc:
  "exec_conc p srv verbose fr s = (frs, sp, s') \<Longrightarrow>
   wg s' = wg s + int (length sp) \<and>
   (exit_code s' = Some 0 \<longrightarrow> exit_code s = Some 0) \<and>
   (fr \<noteq> WgWait \<and> fr \<noteq> ReportTotals \<longrightarrow> WgWait \<notin> set frs \<and> ReportTotals \<notin> set frs)"
  by (cases "(p, srv, verbose, fr, s)" rule: exec_conc.cases)
     (auto simp: Let_def split: page_result.splits caller.splits option.splits if_splits)


lemma live_tot: "live gs = tot (\<lambda>g. if g = None then 0 else (1::nat)) gs"
  by (induction gs) (simp_all add: live_def)

lemma live_append [simp]: "live (gs @ map Some sp) = live gs + length sp"
  by (induction sp rule: rev_induct) (simp_all add: live_def flip: append_assoc)

lemma live_update_Some:
  "j < length gs \<Longrightarrow> gs ! j \<noteq> None \<Longrightarrow> live (gs[j := Some x]) = live gs"
  using tot_update[of j gs "\<lambda>g. if g = None then 0 else (1::nat)" "Some x"]
  by (auto simp: live_tot)

lemma live_update_None:
  "j < length gs \<Longrightarrow> gs ! j \<noteq> None \<Longrightarrow> Suc (live (gs[j := None])) = live gs"
  using tot_update[of j gs "\<lambda>g. if g = None then 0 else (1::nat)" None]
  by (auto simp: live_tot)

lemma quiet_live: "quiet c = (live (goroutines c) = 0)"
  by (simp add: quiet_def live_def list_all_iff filter_empty_conv)

lemma quiet_nth: "quiet c \<Longrightarrow> j < length (goroutines c) \<Longrightarrow> goroutines c ! j = None"
  by (simp add: quiet_def list_all_length)

lemma step_sane:
  assumes ctl: "\<And>fr s frs sp s'. ex fr s = (frs, sp, s') \<Longrightarrow>
      wg s' = wg s + int (length sp) \<and>
      (exit_code s' = Some 0 \<longrightarrow> exit_code s = Some 0) \<and>
      (fr \<noteq> WgWait \<and> fr \<noteq> ReportTotals \<longrightarrow> WgWait \<notin> set frs \<and> ReportTotals \<notin> set frs)"
    and wait: "\<And>s. ex WgWait s = ((if wg s = 0 then [] else [WgWait]), [], s)"
    and rep: "\<And>s. \<exists>s'. ex ReportTotals s = ([], [], s')"
    and sane: "sane c"
  shows "sane (step ex i c)"
proof (cases "exit_code (sh c) \<noteq> None")
  case True
  with sane show ?thesis by (simp add: step_def)
next
  case running: False
  from sane have w: "wg (sh c) = int (live (goroutines c))" and m: "main_shape c"
    by (simp_all add: sane_def)
  show ?thesis
  proof (cases i)
    case 0
    show ?thesis
    proof (cases "main_thread c")
      case Nil
      with m have "quiet c" by (auto simp: main_shape_def)
      with Nil running 0 w m show ?thesis
        by (simp add: step_def sane_def main_shape_def quiet_def)
    next
      case (Cons fr rest)
      obtain frs sp s' where e: "ex fr (sh c) = (frs, sp, s')" by (cases "ex fr (sh c)") auto
      from ctl[OF e] have w': "wg s' = wg (sh c) + int (length sp)"
        and x': "exit_code s' \<noteq> Some 0"
        and t': "fr \<noteq> WgWait \<Longrightarrow> fr \<noteq> ReportTotals \<Longrightarrow>
                 WgWait \<notin> set frs \<and> ReportTotals \<notin> set frs"
        using running by auto
      let ?c' = "c\<lparr>sh := s', main_thread := frs @ rest,
                   goroutines := goroutines c @ map Some sp\<rparr>"
      have st: "step ex i c = ?c'" using running 0 Cons e by (simp add: step_def)
      have "main_shape ?c'"
      proof (cases "fr = WgWait")
        case True
        with m Cons have rest: "rest = [ReportTotals]"
          by (auto simp: main_shape_def Cons_eq_append_conv)
        from True e wait have f: "frs = (if wg (sh c) = 0 then [] else [WgWait])" "sp = []"
          by auto
        show ?thesis
        proof (cases "wg (sh c) = 0")
          case True
          with w have "quiet c" by (simp add: quiet_live)
          with True f rest show ?thesis by (simp add: main_shape_def quiet_def)
        next
          case False
          with f rest show ?thesis by (auto simp: main_shape_def)
        qed
      next
        case nw: False
        show ?thesis
        proof (cases "fr = ReportTotals")
          case True
          with m Cons have q: "rest = []" "quiet c"
            by (auto simp: main_shape_def Cons_eq_append_conv)
          from True e rep[of "sh c"] have "frs = []" "sp = []" by auto
          with q show ?thesis by (simp add: main_shape_def quiet_def)
        next
          case False
          with nw m Cons obtain pre where
            p: "fr # rest = pre @ [WgWait, ReportTotals]" "WgWait \<notin> set pre"
               "ReportTotals \<notin> set pre"
            by (auto simp: main_shape_def)
          with nw obtain pre' where p': "pre = fr # pre'" "rest = pre' @ [WgWait, ReportTotals]"
            by (cases pre) auto
          from t'[OF nw False] p p' have
            "frs @ rest = (frs @ pre') @ [WgWait, ReportTotals] \<and>
             WgWait \<notin> set (frs @ pre') \<and> ReportTotals \<notin> set (frs @ pre')" by auto
          then show ?thesis unfolding main_shape_def by (metis config.select_convs(2) config.surjective config.update_convs(1,2,3))
        qed
      qed
      with w w' x' show ?thesis unfolding st by (simp add: sane_def)
    qed
  next
    case (Suc j)
    show ?thesis
    proof (cases "j < length (goroutines c)")
      case False
      with sane running Suc show ?thesis by (simp add: step_def)
    next
      case j: True
      show ?thesis
      proof (cases "goroutines c ! j")
        case None
        with sane running Suc j show ?thesis by (simp add: step_def)
      next
        case (Some st)
        then have nn: "goroutines c ! j \<noteq> None" by simp
        with j have nq: "\<not> quiet c" by (auto dest: quiet_nth)
        with m obtain pre where
          p: "main_thread c = pre @ [WgWait, ReportTotals]" "WgWait \<notin> set pre"
             "ReportTotals \<notin> set pre"
          by (auto simp: main_shape_def)
        show ?thesis
        proof (cases st)
          case Nil
          from live_update_None[OF j nn] w have "0 \<le> wg (sh c) - 1"
            "wg (sh c) - 1 = int (live ((goroutines c)[j := None]))" by auto
          with running Suc j Some Nil p show ?thesis
            by (auto simp: step_def sane_def wg_Done_def main_shape_def)
        next
          case (Cons fr rest)
          obtain frs sp s' where e: "ex fr (sh c) = (frs, sp, s')"
            by (cases "ex fr (sh c)") auto
          from ctl[OF e] have w': "wg s' = wg (sh c) + int (length sp)"
            and x': "exit_code s' \<noteq> Some 0"
            using running by auto
          from running Suc j Some Cons e p w w' x' live_update_Some[OF j nn]
          show ?thesis
            by (auto simp: step_def sane_def main_shape_def)
        qed
      qed
    qed
  qed
qed

lemma step_shared:
  assumes fr: "\<And>fr s frs sp s'. ex fr s = (frs, sp, s') \<Longrightarrow> I s \<Longrightarrow> I s'"
    and dn: "\<And>s. I s \<Longrightarrow> I (wg_Done s)"
    and ex0: "\<And>s. I s \<Longrightarrow> I (s\<lparr>exit_code := Some 0\<rparr>)"
    and i: "I (sh c)"
  shows "I (sh (step ex i c))"
proof (cases i)
  case 0
  show ?thesis
  proof (cases "main_thread c")
    case Nil
    with 0 i ex0 show ?thesis by (simp add: step_def)
  next
    case (Cons f rest)
    obtain frs sp s' where e: "ex f (sh c) = (frs, sp, s')" by (cases "ex f (sh c)") auto
    from fr[OF e i] 0 Cons e i show ?thesis by (simp add: step_def)
  qed
next
  case (Suc j)
  show ?thesis
  proof (cases "j < length (goroutines c) \<and> goroutines c ! j \<noteq> None")
    case False
    with Suc i show ?thesis by (auto simp: step_def)
  next
    case True
    then obtain st where st: "goroutines c ! j = Some st" by auto
    show ?thesis
    proof (cases st)
      case Nil
      with Suc True st i dn show ?thesis by (simp add: step_def)
    next
      case (Cons f rest)
      obtain frs sp s' where e: "ex f (sh c) = (frs, sp, s')" by (cases "ex f (sh c)") auto
      from fr[OF e i] Suc True st Cons e i show ?thesis by (simp add: step_def)
    qed
  qed
qed

lemma run_invariant:
  "(\<And>c i. P c \<Longrightarrow> P (step ex i c)) \<Longrightarrow> P c \<Longrightarrow> P (run ex sched c)"
  by (induction sched arbitrary: c) simp_all

lemma run_exited: "exit_code (sh c) \<noteq> None \<Longrightarrow> run ex sched c = c"
  by (induction sched) (simp_all add: step_def)

lemma quiet_pending: "main_thread c = [] \<Longrightarrow> quiet c \<Longrightarrow> pending pd c = 0"
proof -
  have "list_all (\<lambda>g. g = None) gs \<Longrightarrow> tot (thread_tot pd) gs = 0" for gs
    by (induction gs) simp_all
  then show "main_thread c = [] \<Longrightarrow> quiet c \<Longrightarrow> pending pd c = 0"
    by (simp add: pending_def quiet_def)
qed

lemma balanced_at_exit:
  "sane c \<Longrightarrow> exit_code (sh c) = Some 0 \<Longrightarrow> balanced dn pd sr k c \<Longrightarrow>
   tot dn (events (sh c)) = tot sr (events (sh c)) + k"
  by (simp add: sane_def balanced_def quiet_pending)

lemma main_frames_due:
  "tot restore_due (main_frames t args) = {#}"
  "tot page_due (main_frames t args) = {#}"
  "tot claim_due (main_frames t args) = mset (roots args)"
proof -
  have a: "tot restore_due (map (\<lambda>f. ProcessFolder f t' cl) xs) = {#}" for xs t' cl
    by (induction xs) simp_all
  have b: "tot page_due (map (\<lambda>f. ProcessFolder f t' cl) xs) = {#}" for xs t' cl
    by (induction xs) simp_all
  have c: "tot claim_due (map (\<lambda>f. ProcessFolder f t' cl) xs) = mset xs" for xs t' cl
    by (induction xs) simp_all
  show "tot restore_due (main_frames t args) = {#}" by (simp add: main_frames_def a)
  show "tot page_due (main_frames t args) = {#}" by (simp add: main_frames_def b)
  show "tot claim_due (main_frames t args) = mset (roots args)"
    by (simp add: main_frames_def c roots_def)
qed

lemma main_frames_shape:
  "\<exists>pre. main_frames t args = pre @ [WgWait, ReportTotals] \<and>
         WgWait \<notin> set pre \<and> ReportTotals \<notin> set pre"
proof -
  let ?pre = "(if length args > 0 then map (\<lambda>folderId. ProcessFolder folderId '''' FromArgs) args
      else [ProcessFolder '''' t FromRoot]) @ [LogWaiting]"
  have "main_frames t args = ?pre @ [WgWait, ReportTotals]" by (simp add: main_frames_def)
  moreover have "WgWait \<notin> set ?pre" "ReportTotals \<notin> set ?pre" by auto
  ultimately show ?thesis by blast
qed

lemma start_ok:
  assumes "startup_fatal st = None"
  shows "sane (main_start t st args)"
    and "balanced restore_done restore_due trashed_found {#} (main_start t st args)"
    and "balanced listed page_due pages_owed {#} (main_start t st args)"
    and "balanced attempted claim_due folders_found (mset (roots args)) (main_start t st args)"
    and "counters_ok (sh (main_start t st args))"
    and "registry_ok (sh (main_start t st args))"
    and "events (sh (main_start t st args)) = []"
proof -
  from assms main_frames_shape[of t args] show "sane (main_start t st args)"
    by (simp add: sane_def main_start_def shared0_def live_def main_shape_def)
  from assms show "balanced restore_done restore_due trashed_found {#} (main_start t st args)"
    by (simp add: balanced_def pending_def main_start_def shared0_def main_frames_due)
  from assms show "balanced listed page_due pages_owed {#} (main_start t st args)"
    by (simp add: balanced_def pending_def main_start_def shared0_def main_frames_due)
  from assms show "balanced attempted claim_due folders_found (mset (roots args)) (main_start t st args)"
    by (simp add: balanced_def pending_def main_start_def shared0_def main_frames_due)
  from assms show "counters_ok (sh (main_start t st args))"
    by (simp add: counters_ok_def main_start_def shared0_def)
  from assms show "registry_ok (sh (main_start t st args))"
    by (simp add: registry_ok_def main_start_def shared0_def lookup_def)
  from assms show "events (sh (main_start t st args)) = []"
    by (simp add: main_start_def shared0_def)
qed

lemma start_fatal:
  "startup_fatal st = Some l \<Longrightarrow>
   run ex sched (main_start t st args) =
     \<lparr>sh = (emit (Logged l) shared0)\<lparr>exit_code := Some 1\<rparr>, main_thread = [], goroutines = []\<rparr>"
  by (simp add: main_start_def run_exited)

lemma registry_wg_Done [simp]: "registry_ok (wg_Done s) = registry_ok s"
  by (simp add: registry_ok_def wg_Done_def)

lemma counters_wg_Done [simp]: "counters_ok (wg_Done s) = counters_ok s"
  by (simp add: counters_ok_def wg_Done_def)

lemma size_tot_append: "size (tot f (xs @ ys) :: 'a multiset) = size (tot f xs) + size (tot f ys)"
  by simp

lemma guarded_registry_dedup:
  assumes e: "exec_dedup p srv verbose fr s = (frs, sp, s')"
    and g: "size (tot attempted (events s)) < 2 ^ 63 \<longrightarrow> registry_ok s"
  shows "size (tot attempted (events s')) < 2 ^ 63 \<longrightarrow> registry_ok s'"
proof
  assume b: "size (tot attempted (events s')) < 2 ^ 63"
  from restore_law_dedup[OF e] obtain new where "events s' = events s @ new" by blast
  then have "size (tot attempted (events s)) \<le> size (tot attempted (events s'))" by simp
  with b have b': "size (tot attempted (events s)) < 2 ^ 63" by simp
  with g have "registry_ok s" by simp
  from registry_dedup[OF e this b'] show "registry_ok s'" .
qed

lemma exec_dedup_WgWait: "exec_dedup p srv verbose WgWait s = ((if wg s = 0 then [] else [WgWait]), [], s)"
  by simp

lemma exec_dedup_ReportTotals: "\<exists>s'. exec_dedup p srv verbose ReportTotals s = ([], [], s')"
  by simp

lemma exec_conc_WgWait: "exec_conc p srv verbose WgWait s = ((if wg s = 0 then [] else [WgWait]), [], s)"
  by simp

lemma exec_conc_ReportTotals: "\<exists>s'. exec_conc p srv verbose ReportTotals s = ([], [], s')"
  by simp

lemma run_dedup:
  assumes ok: "startup_fatal st = None"
    and c: "c = run (exec_dedup p srv verbose) sched (main_start t st args)"
  shows "sane c"
    and "balanced restore_done restore_due trashed_found {#} c"
    and "balanced listed page_due pages_owed {#} c"
    and "balanced attempted claim_due folders_found (mset (roots args)) c"
    and "counters_ok (sh c)"
    and "list_all (event_sound (getFolderPage p srv) (restore_result p srv)) (events (sh c))"
    and "size (tot attempted (events (sh c))) < 2 ^ 63 \<longrightarrow> registry_ok (sh c)"
proof -
  let ?ex = "exec_dedup p srv verbose" and ?c0 = "main_start t st args"
  show "sane c" unfolding c
    by (rule run_invariant[where P = sane])
       (rule step_sane[OF control_dedup exec_dedup_WgWait exec_dedup_ReportTotals],
        assumption+, rule start_ok(1)[OF ok])
  show "balanced restore_done restore_due trashed_found {#} c" unfolding c
    by (rule run_invariant[where P = "balanced restore_done restore_due trashed_found {#}"])
       (rule step_balanced[OF restore_law_dedup], assumption+, rule start_ok(2)[OF ok])
  show "balanced listed page_due pages_owed {#} c" unfolding c
    by (rule run_invariant[where P = "balanced listed page_due pages_owed {#}"])
       (rule step_balanced[OF page_law_dedup], assumption+, rule start_ok(3)[OF ok])
  show "balanced attempted claim_due folders_found (mset (roots args)) c" unfolding c
    by (rule run_invariant[where P = "balanced attempted claim_due folders_found (mset (roots args))"])
       (rule step_balanced[OF claim_law_dedup], assumption+, rule start_ok(4)[OF ok])
  show "counters_ok (sh c)" unfolding c
    by (rule run_invariant[where P = "\<lambda>c. counters_ok (sh c)"])
       (rule step_shared[where I = counters_ok, OF counters_dedup],
        assumption+, simp, simp add: counters_ok_def, assumption, rule start_ok(5)[OF ok])
  show "list_all (event_sound (getFolderPage p srv) (restore_result p srv)) (events (sh c))"
    unfolding c
    by (rule run_invariant[where P = "\<lambda>c. list_all (event_sound (getFolderPage p srv) (restore_result p srv)) (events (sh c))"])
       (rule step_shared[where I = "\<lambda>s. list_all (event_sound (getFolderPage p srv) (restore_result p srv)) (events s)", OF sound_dedup],
        assumption+, simp, simp, assumption, simp add: start_ok(7)[OF ok])
  show "size (tot attempted (events (sh c))) < 2 ^ 63 \<longrightarrow> registry_ok (sh c)" unfolding c
    by (rule run_invariant[where P = "\<lambda>c. size (tot attempted (events (sh c))) < 2 ^ 63 \<longrightarrow> registry_ok (sh c)"])
       (rule step_shared[where I = "\<lambda>s. size (tot attempted (events s)) < 2 ^ 63 \<longrightarrow> registry_ok s", OF guarded_registry_dedup],
        assumption+, simp, simp add: registry_ok_def, assumption, simp add: start_ok(6)[OF ok])
qed

lemma run_conc:
  assumes ok: "startup_fatal st = None"
    and c: "c = run (exec_conc p srv verbose) sched (main_start t st args)"
  shows "sane c"
    and "balanced restore_done restore_due trashed_found {#} c"
    and "counters_ok (sh c)"
    and "list_all (event_sound (getFolderPage_conc p srv) (restore_result p srv)) (events (sh c))"
proof -
  show "sane c" unfolding c
    by (rule run_invariant[where P = sane])
       (rule step_sane[OF control_conc exec_conc_WgWait exec_conc_ReportTotals],
        assumption+, rule start_ok(1)[OF ok])
  show "balanced restore_done restore_due trashed_found {#} c" unfolding c
    by (rule run_invariant[where P = "balanced restore_done restore_due trashed_found {#}"])
       (rule step_balanced[OF restore_law_conc], assumption+, rule start_ok(2)[OF ok])
  show "counters_ok (sh c)" unfolding c
    by (rule run_invariant[where P = "\<lambda>c. counters_ok (sh c)"])
       (rule step_shared[where I = counters_ok, OF counters_conc],
        assumption+, simp, simp add: counters_ok_def, assumption, rule start_ok(5)[OF ok])
  show "list_all (event_sound (getFolderPage_conc p srv) (restore_result p srv)) (events (sh c))"
    unfolding c
    by (rule run_invariant[where P = "\<lambda>c. list_all (event_sound (getFolderPage_conc p srv) (restore_result p srv)) (events (sh c))"])
       (rule step_shared[where I = "\<lambda>s. list_all (event_sound (getFolderPage_conc p srv) (restore_result p srv)) (events s)", OF sound_conc],
        assumption+, simp, simp, assumption, simp add: start_ok(7)[OF ok])
qed

lemma owed_first: "count (tot pages_owed evs) (f, '''') = count (tot claimed evs) f"
proof (induction evs)
  case Nil
  then show ?case by simp
next
  case (Cons e evs)
  then show ?case
    by (cases e rule: pages_owed.cases) auto
qed

lemma restore_ok_filter:
  "list_all (event_sound lst rst) evs \<Longrightarrow>
   tot restore_ok evs = filter_mset (\<lambda>child. rst child = None) (tot restore_done evs)"
proof (induction evs)
  case Nil
  then show ?case by simp
next
  case (Cons e evs)
  then show ?case
    by (cases e rule: restore_ok.cases) auto
qed






lemma skip_dedup:
  assumes r: "registry_ok s" and b: "size (tot attempted (events s)) < 2 ^ 63"
    and a: "f \<in># tot attempted (events s)"
  shows "\<exists>s'. exec_dedup p srv verbose (ProcessFolder f t cl) s = ([], [], s') \<and>
           tot listed (events s') = tot listed (events s) \<and>
           tot restore_done (events s') = tot restore_done (events s) \<and>
           wg s' = wg s \<and> countFolders s' = countFolders s"
proof -
  let ?a = "count (tot attempted (events s)) f"
  have "?a \<le> size (tot attempted (events s))" by (rule count_le_size)
  with b have "?a < 2 ^ 63" by simp
  moreover from a have "0 < ?a" by simp
  moreover from r have "lookup (seen s) f = of_nat ?a" by (simp add: registry_ok_def)
  ultimately have "0 <s lookup (seen s) f" using positive_count[of ?a] by simp
  then show ?thesis by (cases verbose) (simp_all add: Let_def)
qed

text \<open>
  C1, for the program with the registry. In every state of every run with fewer than
  \<open>2 ^ 63\<close> claim attempts (beyond that the 64-bit count of an id wraps), the first page of
  a folder id has been requested at most once. When the process has exited with status
  0, it has been requested exactly once for every id that is a root scope or appears as a
  folder in a fetched page, so for every id reachable from the roots. An attempt on an
  id already attempted returns at once: no frame is left, no goroutine is started, and
  the listing and restore calls of the trace are unchanged.
\<close>

theorem registry_lists_folder_once:
  assumes c: "c = main_dedup new srv verbose st args sched"
    and b: "size (tot attempted (events (sh c))) < 2 ^ 63"
  shows "count (tot listed (events (sh c))) (f, '''') \<le> 1 \<and>
         (exit_code (sh c) = Some 0 \<and>
          (f \<in> set (roots args) \<or> f \<in># tot folders_found (events (sh c))) \<longrightarrow>
            count (tot listed (events (sh c))) (f, '''') = 1) \<and>
         (f \<in># tot attempted (events (sh c)) \<longrightarrow>
            (\<exists>s'. exec_dedup (main_pacer_aggressive new) srv verbose
                     (ProcessFolder f t cl) (sh c) = ([], [], s') \<and>
                  tot listed (events s') = tot listed (events (sh c)) \<and>
                  tot restore_done (events s') = tot restore_done (events (sh c))))"
proof (cases "startup_fatal st")
  case (Some l)
  with c show ?thesis by (simp add: main_dedup_def start_fatal shared0_def)
next
  case None
  from c have r: "c = run (exec_dedup (main_pacer_aggressive new) srv verbose) sched
                        (main_start ''/'' st args)" by (simp add: main_dedup_def)
  note f = run_dedup[OF None r]
  from f(7) b have reg: "registry_ok (sh c)" by simp
  then have clm: "count (tot claimed (events (sh c))) f
                 = (if count (tot attempted (events (sh c))) f = 0 then 0 else 1)"
    by (simp add: registry_ok_def)
  from f(3) have "count (tot listed (events (sh c))) (f, '''')
                  \<le> count (tot pages_owed (events (sh c))) (f, '''')"
    by (metis add.right_neutral balanced_def count_union le_add1)
  with clm have once: "count (tot listed (events (sh c))) (f, '''') \<le> 1"
    by (simp add: owed_first split: if_splits)
  have fin: "count (tot listed (events (sh c))) (f, '''') = 1"
    if x: "exit_code (sh c) = Some 0"
      and m: "f \<in> set (roots args) \<or> f \<in># tot folders_found (events (sh c))"
  proof -
    from balanced_at_exit[OF f(1) x f(4)]
    have "tot attempted (events (sh c)) = tot folders_found (events (sh c)) + mset (roots args)" .
    with m have "f \<in># tot attempted (events (sh c))" by auto
    with clm have "count (tot claimed (events (sh c))) f = 1" by (simp add: count_eq_zero_iff)
    moreover from balanced_at_exit[OF f(1) x f(3)]
    have "tot listed (events (sh c)) = tot pages_owed (events (sh c))" by simp
    ultimately show ?thesis by (simp add: owed_first)
  qed
  from once fin skip_dedup[OF reg b] show ?thesis by blast
qed

lemma paged_list_first:
  "0 < retries p \<Longrightarrow> files_list srv call 0 = Inr (items, tok) \<Longrightarrow>
   paged_list p srv call = PageOk items tok"
  using pacer_Call_stop[of 0 p "\<lambda>i. shouldRetry (reply_err (files_list srv call i))"]
  by (simp add: paged_list_def reply_err_def reply_fl_def shouldRetry_def)

lemma restore_first:
  "0 < retries p \<Longrightarrow> files_untrash srv (file_Id child) 0 = None \<Longrightarrow>
   restore_result p srv child = None"
  using pacer_Call_stop[of 0 p "\<lambda>i. shouldRetry (files_untrash srv (file_Id child) i)"]
  by (simp add: shouldRetry_def restore_result_def)

lemma retries_aggressive [simp]: "retries (main_pacer_aggressive new) = 50"
  by (simp add: main_pacer_aggressive_def SetRetries_def SetCalculator_def SetMaxConnections_def)

lemma retries_default [simp]: "retries (main_pacer_default new) = 5"
  by (simp add: main_pacer_default_def SetRetries_def SetCalculator_def SetMaxConnections_def)

lemma store_page:
  "0 < retries p \<Longrightarrow>
   getFolderPage p shared_folder_store f tok =
     (if f = ''A'' then PageOk [folder_B, file_F1] '''' else PageOk [] '''')"
proof -
  assume p: "0 < retries p"
  have q: "(Q (getFolderPage_call g t) = Q (getFolderPage_call ''A'' '''')) = (g = ''A'')"
    for g t by (auto simp: getFolderPage_call_def Let_def)
  show ?thesis
  proof (cases "f = ''A''")
    case True
    have "paged_list p shared_folder_store (getFolderPage_call f tok)
          = PageOk [folder_B, file_F1] ''''"
      by (rule paged_list_first[OF p]) (simp add: shared_folder_store_def q True)
    with True show ?thesis by (simp add: getFolderPage_def)
  next
    case False
    have "paged_list p shared_folder_store (getFolderPage_call f tok) = PageOk [] ''''"
      by (rule paged_list_first[OF p]) (simp add: shared_folder_store_def q False)
    with False show ?thesis by (simp add: getFolderPage_def)
  qed
qed

lemma store_restore: "0 < retries p \<Longrightarrow> restore_result p shared_folder_store child = None"
  by (rule restore_first) (simp_all add: shared_folder_store_def)

lemma store_trace:
  assumes p: "0 < retries p"
    and s: "list_all (event_sound (getFolderPage p shared_folder_store) rst) evs"
  shows "tot pages_owed evs = image_mset (\<lambda>f. (f, '''')) (tot claimed evs) \<and>
         tot folders_found evs
           = replicate_mset (size (filter_mset (\<lambda>x. fst x = ''A'') (tot listed evs))) ''B'' \<and>
         tot trashed_found evs
           = replicate_mset (size (filter_mset (\<lambda>x. fst x = ''A'') (tot listed evs))) file_F1"
  using s
proof (induction evs)
  case Nil
  then show ?case by simp
next
  case (Cons e evs)
  then show ?case
    by (cases e) (auto simp: store_page[OF p] folder_B_def file_F1_def)
qed

lemma step_from:
  assumes fr: "\<And>fr frs sp s'. ex fr (sh c) = (frs, sp, s') \<Longrightarrow> I s'"
    and dn: "I (wg_Done (sh c))"
    and ex0: "I ((sh c)\<lparr>exit_code := Some 0\<rparr>)"
    and i: "I (sh c)"
  shows "I (sh (step ex i c))"
proof (cases i)
  case 0
  show ?thesis
  proof (cases "main_thread c")
    case Nil
    with 0 i ex0 show ?thesis by (simp add: step_def)
  next
    case (Cons f rest)
    obtain frs sp s' where e: "ex f (sh c) = (frs, sp, s')" by (cases "ex f (sh c)") auto
    from fr[OF e] 0 Cons e i show ?thesis by (simp add: step_def)
  qed
next
  case (Suc j)
  show ?thesis
  proof (cases "j < length (goroutines c) \<and> goroutines c ! j \<noteq> None")
    case False
    with Suc i show ?thesis by (auto simp: step_def)
  next
    case True
    then obtain st where st: "goroutines c ! j = Some st" by auto
    show ?thesis
    proof (cases st)
      case Nil
      with Suc True st i dn show ?thesis by (simp add: step_def)
    next
      case (Cons f rest)
      obtain frs sp s' where e: "ex f (sh c) = (frs, sp, s')" by (cases "ex f (sh c)") auto
      from fr[OF e] Suc True st Cons e i show ?thesis by (simp add: step_def)
    qed
  qed
qed

lemma step_registry:
  assumes "registry_ok (sh c)" "size (tot attempted (events (sh c))) < 2 ^ 63"
  shows "registry_ok (sh (step (exec_dedup p srv verbose) i c))"
  by (rule step_from[where I = registry_ok])
     (rule registry_dedup, assumption, rule assms, rule assms,
      simp add: assms, simp add: registry_ok_def assms[unfolded registry_ok_def], rule assms)

lemma run_snoc: "run ex (sched @ [i]) c = step ex i (run ex sched c)"
  by (induction sched arbitrary: c) simp_all

lemma run_append: "run ex (sched @ later) c = run ex later (run ex sched c)"
  by (induction sched arbitrary: c) simp_all

lemma store_attempts:
  assumes p: "0 < retries p" and ok: "startup_fatal st = None"
    and c: "c = run (exec_dedup p shared_folder_store verbose) sched (main_start t st [''A'', ''B''])"
    and reg: "registry_ok (sh c)"
  shows "size (filter_mset (\<lambda>x. fst x = ''A'') (tot listed (events (sh c)))) \<le> 1"
    and "size (tot attempted (events (sh c))) \<le> 3"
proof -
  note f = run_dedup[OF ok c]
  let ?evs = "events (sh c)"
  note tr = store_trace[OF p f(6)]
  from f(3) have "tot listed ?evs \<subseteq># tot pages_owed ?evs"
    by (simp add: balanced_def) (metis mset_subset_eq_add_left)
  then have "filter_mset (\<lambda>x. fst x = ''A'') (tot listed ?evs)
             \<subseteq># filter_mset (\<lambda>x. fst x = ''A'') (tot pages_owed ?evs)"
    by (rule multiset_filter_mono)
  also have "filter_mset (\<lambda>x. fst x = ''A'') (tot pages_owed ?evs)
             = image_mset (\<lambda>f. (f, '''')) (filter_mset (\<lambda>f. f = ''A'') (tot claimed ?evs))"
    by (simp add: tr filter_mset_image_mset)
  finally have "size (filter_mset (\<lambda>x. fst x = ''A'') (tot listed ?evs))
                \<le> size (filter_mset (\<lambda>f. f = ''A'') (tot claimed ?evs))"
    using size_mset_mono by fastforce
  also have "\<dots> = count (tot claimed ?evs) ''A''"
    by (simp add: filter_eq_replicate_mset)
  also from reg have "\<dots> \<le> 1" by (simp add: registry_ok_def)
  finally show a: "size (filter_mset (\<lambda>x. fst x = ''A'') (tot listed ?evs)) \<le> 1" .
  from f(4) have "size (tot attempted ?evs) \<le> size (tot folders_found ?evs) + size (mset (roots [''A'', ''B'']))"
    by (metis balanced_def le_add1 size_union)
  with a show "size (tot attempted ?evs) \<le> 3" by (simp add: tr roots_def)
qed

lemma store_registry:
  assumes p: "0 < retries p" and ok: "startup_fatal st = None"
  shows "registry_ok (sh (run (exec_dedup p shared_folder_store verbose) sched
                           (main_start t st [''A'', ''B''])))"
proof (induction sched rule: rev_induct)
  case Nil
  from start_ok(6)[OF ok] show ?case by simp
next
  case (snoc i sched)
  let ?c = "run (exec_dedup p shared_folder_store verbose) sched (main_start t st [''A'', ''B''])"
  from store_attempts(2)[OF p ok refl snoc] have "size (tot attempted (events (sh ?c))) \<le> 3" .
  then have "size (tot attempted (events (sh ?c))) < 2 ^ 63" by simp
  from step_registry[OF snoc this] show ?case by (simp add: run_snoc)
qed

lemma store_final:
  assumes p: "0 < retries p" and ok: "startup_fatal st = None"
    and c: "c = run (exec_dedup p shared_folder_store verbose) sched (main_start t st [''A'', ''B''])"
    and x: "exit_code (sh c) = Some 0"
  shows "tot claimed (events (sh c)) = {#''A'', ''B''#}"
    and "count (tot listed (events (sh c))) (''B'', '''') = 1"
    and "tot restore_done (events (sh c)) = {#file_F1#}"
    and "tot restore_ok (events (sh c)) = {#file_F1#}"
proof -
  note f = run_dedup[OF ok c]
  let ?evs = "events (sh c)"
  note tr = store_trace[OF p f(6)]
  from store_registry[OF p ok] c have reg: "registry_ok (sh c)" by simp
  then have clm: "count (tot claimed ?evs) g = (if g \<in># tot attempted ?evs then 1 else 0)" for g
    by (simp add: registry_ok_def count_eq_zero_iff)
  let ?n = "size (filter_mset (\<lambda>x. fst x = ''A'') (tot listed ?evs))"
  from balanced_at_exit[OF f(1) x f(4)]
  have att: "tot attempted ?evs = replicate_mset ?n ''B'' + {#''A'', ''B''#}"
    by (simp add: tr roots_def)
  from balanced_at_exit[OF f(1) x f(3)]
  have lst: "tot listed ?evs = image_mset (\<lambda>f. (f, '''')) (tot claimed ?evs)"
    by (simp add: tr)
  have "?n = size (filter_mset (\<lambda>f. f = ''A'') (tot claimed ?evs))"
    by (simp add: lst filter_mset_image_mset)
  also have "\<dots> = count (tot claimed ?evs) ''A''" by (simp add: filter_eq_replicate_mset)
  also have "\<dots> = 1" by (simp add: clm att)
  finally have n: "?n = 1" .
  with att have att': "tot attempted ?evs = {#''B'', ''A'', ''B''#}" by simp
  show cl: "tot claimed ?evs = {#''A'', ''B''#}"
    by (rule multiset_eqI) (auto simp: clm att')
  show "count (tot listed ?evs) (''B'', '''') = 1"
    by (simp add: lst cl count_image_mset)
  from balanced_at_exit[OF f(1) x f(2)]
  show rd: "tot restore_done ?evs = {#file_F1#}" by (simp add: tr n)
  from restore_ok_filter[OF f(6)] rd show "tot restore_ok ?evs = {#file_F1#}"
    by (simp add: store_restore[OF p])
qed

lemma step_events_dedup:
  "\<exists>new. events (sh (step (exec_dedup p srv verbose) i c)) = events (sh c) @ new"
  by (rule step_from[where I = "\<lambda>s. \<exists>new. events s = events (sh c) @ new"])
     (use restore_law_dedup in blast, simp_all)

lemma run_events_dedup:
  "\<exists>new. events (sh (run (exec_dedup p srv verbose) sched c)) = events (sh c) @ new"
proof (induction sched arbitrary: c)
  case Nil
  then show ?case by simp
next
  case (Cons i sched)
  from Cons[of "step (exec_dedup p srv verbose) i c"] step_events_dedup[of p srv verbose i c]
  show ?case by auto
qed

lemma counters_fatal:
  "counters_ok ((emit (Logged l) shared0)\<lparr>exit_code := Some 1\<rparr>)"
  by (simp add: counters_ok_def shared0_def)

text \<open>
  C8. In every state of every run the folder counter is the number of successful
  claims in the trace and the restored counter the number of successful restores, as
  64-bit counters, and neither number decreases when the run goes on. In the scenario
  with roots \<open>A\<close> and \<open>B\<close> where \<open>B\<close> is also a child of \<open>A\<close>, every schedule that ends
  with exit status 0 ends with the folder counter at 2, one listing of \<open>B\<close>, one restore
  of \<open>F1\<close> and the restored counter at 1.
\<close>

theorem counters_count_claims_and_restores:
  "(c = main_dedup new srv verbose st args sched \<longrightarrow>
      countFolders (sh c) = of_nat (size (tot claimed (events (sh c)))) \<and>
      countRestored (sh c) = of_nat (size (tot restore_ok (events (sh c)))) \<and>
      size (tot claimed (events (sh c)))
        \<le> size (tot claimed (events (sh (main_dedup new srv verbose st args (sched @ later))))) \<and>
      size (tot restore_ok (events (sh c)))
        \<le> size (tot restore_ok (events (sh (main_dedup new srv verbose st args (sched @ later))))))
   \<and>
   (c = main_dedup new shared_folder_store verbose st [''A'', ''B''] sched \<and>
    exit_code (sh c) = Some 0 \<longrightarrow>
      countFolders (sh c) = 2 \<and>
      count (tot listed (events (sh c))) (''B'', '''') = 1 \<and>
      count (tot restore_done (events (sh c))) file_F1 = 1 \<and>
      countRestored (sh c) = 1)"
proof (intro conjI impI; (elim conjE)?)
  assume c: "c = main_dedup new srv verbose st args sched"
  have ok: "counters_ok (sh c)"
  proof (cases "startup_fatal st")
    case None
    from c have "c = run (exec_dedup (main_pacer_aggressive new) srv verbose) sched
                       (main_start ''/'' st args)" by (simp add: main_dedup_def)
    from run_dedup(5)[OF None this] show ?thesis .
  next
    case (Some l)
    with c counters_fatal show ?thesis by (simp add: main_dedup_def start_fatal)
  qed
  then show "countFolders (sh c) = of_nat (size (tot claimed (events (sh c))))"
    and "countRestored (sh c) = of_nat (size (tot restore_ok (events (sh c))))"
    by (simp_all add: counters_ok_def)
  from run_events_dedup[of "main_pacer_aggressive new" srv verbose later c] obtain new' where
    "events (sh (main_dedup new srv verbose st args (sched @ later))) = events (sh c) @ new'"
    by (auto simp: c main_dedup_def run_append)
  then show "size (tot claimed (events (sh c)))
        \<le> size (tot claimed (events (sh (main_dedup new srv verbose st args (sched @ later)))))"
    and "size (tot restore_ok (events (sh c)))
        \<le> size (tot restore_ok (events (sh (main_dedup new srv verbose st args (sched @ later)))))"
    by simp_all
next
  assume c: "c = main_dedup new shared_folder_store verbose st [''A'', ''B''] sched"
    and x: "exit_code (sh c) = Some 0"
  have ok: "startup_fatal st = None"
  proof (cases "startup_fatal st")
    case (Some l)
    with c x show ?thesis by (simp add: main_dedup_def start_fatal)
  qed simp
  from c have r: "c = run (exec_dedup (main_pacer_aggressive new) shared_folder_store verbose)
                        sched (main_start ''/'' st [''A'', ''B''])" by (simp add: main_dedup_def)
  have p: "0 < retries (main_pacer_aggressive new)" by simp
  note fin = store_final[OF p ok r x]
  from run_dedup(5)[OF ok r] fin(1,4)
  show "countFolders (sh c) = 2" and "countRestored (sh c) = 1"
    by (simp_all add: counters_ok_def)
  from fin(2) show "count (tot listed (events (sh c))) (''B'', '''') = 1" .
  from fin(3) show "count (tot restore_done (events (sh c))) file_F1 = 1" by simp
qed

lemma shared_folder_exit: "exit_code (sh shared_folder_run) = Some 0"
  by code_simp

lemma shared_folder_events:
  "events (sh shared_folder_run) =
     [Claimed ''A'', Listed ''A'' '''' (PageOk [folder_B, file_F1] ''''),
      Claimed ''B'', Listed ''B'' '''' (PageOk [] ''''),
      Skipped ''B'' 1, Untrashed file_F1 None,
      Logged (Printf ''Waiting for goroutines to finish...'' []),
      Logged (Printf ''Processed %d folders in total'' [Cnt 2]),
      Logged (Printf ''Restored %d files in total'' [Cnt 1])]"
  by code_simp

theorem counters_count_claims_and_restores_witness:
  "exit_code (sh shared_folder_run) = Some 0 \<and>
   countFolders (sh shared_folder_run) = 2 \<and>
   count (tot listed (events (sh shared_folder_run))) (''B'', '''') = 1 \<and>
   count (tot restore_done (events (sh shared_folder_run))) file_F1 = 1 \<and>
   countRestored (sh shared_folder_run) = 1"
proof -
  note t = counters_count_claims_and_restores[of shared_folder_run pacer_New shared_folder_store False startup_fine
      "[''A'', ''B'']" shared_folder_schedule "[]"]
  from t shared_folder_run_def shared_folder_exit show ?thesis by blast
qed

theorem registry_lists_folder_once_witness:
  "size (tot attempted (events (sh shared_folder_run))) < 2 ^ 63 \<and>
   exit_code (sh shared_folder_run) = Some 0 \<and>
   ''B'' \<in> set (roots [''A'', ''B'']) \<and>
   ''B'' \<in># tot folders_found (events (sh shared_folder_run)) \<and>
   count (tot listed (events (sh shared_folder_run))) (''B'', '''') = 1 \<and>
   ''B'' \<in># tot attempted (events (sh shared_folder_run)) \<and>
   (\<exists>s'. exec_dedup (main_pacer_aggressive pacer_New) shared_folder_store False
            (ProcessFolder ''B'' ''b'' FromRestore) (sh shared_folder_run) = ([], [], s') \<and>
         tot listed (events s') = tot listed (events (sh shared_folder_run)) \<and>
         tot restore_done (events s') = tot restore_done (events (sh shared_folder_run)))"
proof -
  have a: "size (tot attempted (events (sh shared_folder_run))) < 2 ^ 63"
    and b: "''B'' \<in># tot folders_found (events (sh shared_folder_run))"
    and c: "''B'' \<in> set (roots [''A'', ''B''])"
    and d: "''B'' \<in># tot attempted (events (sh shared_folder_run))"
    by (simp_all add: shared_folder_events roots_def folder_B_def file_F1_def)
  note t = registry_lists_folder_once[of shared_folder_run pacer_New shared_folder_store False
      startup_fine "[''A'', ''B'']" shared_folder_schedule "''B''" "''b''" FromRestore,
      OF shared_folder_run_def a]
  from t[THEN conjunct2, THEN conjunct1] b shared_folder_exit
  have e: "count (tot listed (events (sh shared_folder_run))) (''B'', '''') = 1" by simp
  from t[THEN conjunct2, THEN conjunct2] d
  have f: "\<exists>s'. exec_dedup (main_pacer_aggressive pacer_New) shared_folder_store False
            (ProcessFolder ''B'' ''b'' FromRestore) (sh shared_folder_run) = ([], [], s') \<and>
         tot listed (events s') = tot listed (events (sh shared_folder_run)) \<and>
         tot restore_done (events s') = tot restore_done (events (sh shared_folder_run))"
    by simp
  from a b c d e f shared_folder_exit show ?thesis by simp
qed


section \<open>Failures, pages and restores: proofs\<close>

lemma page_law_conc:
  "exec_conc p srv verbose fr s = (frs, sp, s') \<Longrightarrow>
   \<exists>new. events s' = events s @ new \<and>
     tot listed new + tot page_due_conc frs + tot (tot page_due_conc) sp
       = tot pages_owed_conc new + page_due_conc fr"
  by (cases "(p, srv, verbose, fr, s)" rule: exec_conc.cases)
     (auto simp: Let_def split: page_result.splits caller.splits option.splits if_splits)

lemma pacer_loop_last:
  "pacer_loop fn i k err0 = (err, n) \<Longrightarrow> 0 < k \<Longrightarrow> i < n \<and> err = snd (fn (n - 1))"
proof (induction k arbitrary: i err0)
  case 0
  then show ?case by simp
next
  case (Suc k)
  show ?case
  proof (cases "fst (fn i) \<and> 0 < k")
    case True
    with Suc.prems have "pacer_loop fn (Suc i) k (snd (fn i)) = (err, n)"
      by (cases "fn i") auto
    from Suc.IH[OF this] True show ?thesis by auto
  next
    case False
    with Suc.prems show ?thesis by (cases "fn i"; cases k) (auto split: if_splits)
  qed
qed

lemma paged_list_no_panic: "0 < retries p \<Longrightarrow> paged_list p srv call \<noteq> PagePanic"
proof -
  assume p: "0 < retries p"
  obtain err n where
    c: "pacer_Call p (\<lambda>i. shouldRetry (reply_err (files_list srv call i))) = (err, n)"
    by (cases "pacer_Call p (\<lambda>i. shouldRetry (reply_err (files_list srv call i)))") auto
  with p have "0 < n \<and> err = reply_err (files_list srv call (n - 1))"
    using pacer_loop_last[of "\<lambda>i. shouldRetry (reply_err (files_list srv call i))" 0
        "nat (retries p)" None err n]
    by (simp add: pacer_Call_def shouldRetry_snd)
  with c show ?thesis
    by (cases "files_list srv call (n - 1)")
       (auto simp: paged_list_def reply_err_def reply_fl_def split: option.splits)
qed

lemma list_all_update:
  "list_all P xs \<Longrightarrow> P x \<Longrightarrow> list_all P (xs[j := x])"
  by (induction xs arbitrary: j) (auto split: nat.splits)

lemma step_frames:
  assumes law: "\<And>fr s frs sp s'. ex fr s = (frs, sp, s') \<Longrightarrow> F fr \<Longrightarrow> X (exit_code s) \<Longrightarrow>
      list_all F frs \<and> list_all (list_all F) sp \<and> X (exit_code s')"
    and x0: "X (Some 0)"
    and sane: "sane c"
    and inv: "frames_all F c \<and> X (exit_code (sh c))"
  shows "frames_all F (step ex i c) \<and> X (exit_code (sh (step ex i c)))"
proof (cases "exit_code (sh c) \<noteq> None")
  case True
  with inv show ?thesis by (simp add: step_def)
next
  case running: False
  have sp: "list_all (list_all F) sp \<Longrightarrow>
            list_all (\<lambda>g. case g of None \<Rightarrow> True | Some st \<Rightarrow> list_all F st) (map Some sp)" for sp
    by (induction sp) simp_all
  show ?thesis
  proof (cases i)
    case 0
    show ?thesis
    proof (cases "main_thread c")
      case Nil
      with inv running 0 x0 show ?thesis by (simp add: step_def frames_all_def)
    next
      case (Cons fr rest)
      obtain frs sp' s' where e: "ex fr (sh c) = (frs, sp', s')" by (cases "ex fr (sh c)") auto
      from inv Cons have "F fr" "X (exit_code (sh c))" by (simp_all add: frames_all_def)
      from law[OF e this] inv Cons running 0 e sp[of sp'] show ?thesis
        by (simp add: step_def frames_all_def)
    qed
  next
    case (Suc j)
    show ?thesis
    proof (cases "j < length (goroutines c) \<and> goroutines c ! j \<noteq> None")
      case False
      with inv running Suc show ?thesis by (auto simp: step_def)
    next
      case True
      then obtain st where st: "goroutines c ! j = Some st" and j: "j < length (goroutines c)"
        by auto
      from inv j st have fst: "list_all F st"
        by (auto simp: frames_all_def list_all_length split: option.splits)
      show ?thesis
      proof (cases st)
        case Nil
        from sane live_update_None[OF j] st have "0 \<le> wg (sh c) - 1" by (auto simp: sane_def)
        then have "exit_code (wg_Done (sh c)) = exit_code (sh c)" by (simp add: wg_Done_def)
        with inv running Suc j st Nil show ?thesis
          by (simp add: step_def frames_all_def list_all_update)
      next
        case (Cons fr rest)
        obtain frs sp' s' where e: "ex fr (sh c) = (frs, sp', s')" by (cases "ex fr (sh c)") auto
        from fst Cons inv have "F fr" "X (exit_code (sh c))" "list_all F rest" by simp_all
        from law[OF e this(1,2)] this(3) inv running Suc j st Cons e sp[of sp'] show ?thesis
          by (simp add: step_def frames_all_def list_all_update)
      qed
    qed
  qed
qed

lemma rootless_dedup:
  assumes p: "0 < retries p"
    and e: "exec_dedup p srv verbose fr s = (frs, sp, s')"
    and f: "\<not> rooted fr" and x: "clean_exit (exit_code s)"
  shows "list_all (\<lambda>fr. \<not> rooted fr) frs \<and> list_all (list_all (\<lambda>fr. \<not> rooted fr)) sp \<and>
         clean_exit (exit_code s')"
  using e f x paged_list_no_panic[OF p, of srv]
  by (cases "(p, srv, verbose, fr, s)" rule: exec_dedup.cases)
     (auto simp: Let_def rooted_def getFolderPage_def
       split: page_result.splits caller.splits option.splits if_splits)

lemma rootless_conc:
  assumes p: "0 < retries p"
    and e: "exec_conc p srv verbose fr s = (frs, sp, s')"
    and f: "\<not> rooted fr" and x: "clean_exit (exit_code s)"
  shows "list_all (\<lambda>fr. \<not> rooted fr) frs \<and> list_all (list_all (\<lambda>fr. \<not> rooted fr)) sp \<and>
         clean_exit (exit_code s')"
  using e f x paged_list_no_panic[OF p, of srv]
  by (cases "(p, srv, verbose, fr, s)" rule: exec_conc.cases)
     (auto simp: Let_def rooted_def getFolderPage_conc_def
       split: page_result.splits caller.splits option.splits if_splits)

lemma start_rootless:
  "args \<noteq> [] \<Longrightarrow> startup_fatal st = None \<Longrightarrow>
   frames_all (\<lambda>fr. \<not> rooted fr) (main_start t st args) \<and>
   clean_exit (exit_code (sh (main_start t st args)))"
  by (simp add: main_start_def frames_all_def main_frames_def rooted_def clean_exit_def
      shared0_def list_all_iff)

lemma step_sane_dedup: "sane c \<Longrightarrow> sane (step (exec_dedup p srv verbose) i c)"
  by (rule step_sane[OF control_dedup exec_dedup_WgWait exec_dedup_ReportTotals])

lemma step_sane_conc: "sane c \<Longrightarrow> sane (step (exec_conc p srv verbose) i c)"
  by (rule step_sane[OF control_conc exec_conc_WgWait exec_conc_ReportTotals])

lemma run_clean_dedup:
  assumes p: "0 < retries p" and a: "args \<noteq> []" and ok: "startup_fatal st = None"
  shows "clean_exit (exit_code (sh (run (exec_dedup p srv verbose) sched (main_start t st args))))"
proof -
  let ?P = "\<lambda>c. sane c \<and> frames_all (\<lambda>fr. \<not> rooted fr) c \<and> clean_exit (exit_code (sh c))"
  have "?P (run (exec_dedup p srv verbose) sched (main_start t st args))"
  proof (rule run_invariant[where P = ?P])
    show "?P (main_start t st args)" using start_ok(1)[OF ok] start_rootless[OF a ok] by simp
  next
    fix c i assume c: "?P c"
    then have "sane (step (exec_dedup p srv verbose) i c)"
      by (simp add: step_sane_dedup)
    moreover have "frames_all (\<lambda>fr. \<not> rooted fr) (step (exec_dedup p srv verbose) i c) \<and>
          clean_exit (exit_code (sh (step (exec_dedup p srv verbose) i c)))"
      by (rule step_frames[where X = clean_exit, OF rootless_dedup[OF p]])
         (assumption+, simp add: clean_exit_def, use c in simp_all)
    ultimately show "?P (step (exec_dedup p srv verbose) i c)" by simp
  qed
  then show ?thesis by simp
qed

lemma run_clean_conc:
  assumes p: "0 < retries p" and a: "args \<noteq> []" and ok: "startup_fatal st = None"
  shows "clean_exit (exit_code (sh (run (exec_conc p srv verbose) sched (main_start t st args))))"
proof -
  let ?P = "\<lambda>c. sane c \<and> frames_all (\<lambda>fr. \<not> rooted fr) c \<and> clean_exit (exit_code (sh c))"
  have "?P (run (exec_conc p srv verbose) sched (main_start t st args))"
  proof (rule run_invariant[where P = ?P])
    show "?P (main_start t st args)" using start_ok(1)[OF ok] start_rootless[OF a ok] by simp
  next
    fix c i assume c: "?P c"
    then have "sane (step (exec_conc p srv verbose) i c)"
      by (simp add: step_sane_conc)
    moreover have "frames_all (\<lambda>fr. \<not> rooted fr) (step (exec_conc p srv verbose) i c) \<and>
          clean_exit (exit_code (sh (step (exec_conc p srv verbose) i c)))"
      by (rule step_frames[where X = clean_exit, OF rootless_conc[OF p]])
         (assumption+, simp add: clean_exit_def, use c in simp_all)
    ultimately show "?P (step (exec_conc p srv verbose) i c)" by simp
  qed
  then show ?thesis by simp
qed

lemma run_pages_conc:
  assumes ok: "startup_fatal st = None"
    and c: "c = run (exec_conc p srv verbose) sched (main_start t st args)"
  shows "balanced listed page_due_conc pages_owed_conc
           (image_mset (\<lambda>f. (f, '''')) (mset (roots args))) c"
  unfolding c
proof (rule run_invariant[where P = "balanced listed page_due_conc pages_owed_conc
           (image_mset (\<lambda>f. (f, '''')) (mset (roots args)))"])
  have "tot page_due_conc (map (\<lambda>f. ProcessFolder f t' cl) xs)
        = image_mset (\<lambda>f. (f, '''')) (mset xs)" for xs t' cl
    by (induction xs) simp_all
  then have "tot page_due_conc (main_frames t args)
             = image_mset (\<lambda>f. (f, '''')) (mset (roots args))"
    by (simp add: main_frames_def roots_def)
  with ok show "balanced listed page_due_conc pages_owed_conc
           (image_mset (\<lambda>f. (f, '''')) (mset (roots args))) (main_start t st args)"
    by (simp add: balanced_def pending_def main_start_def shared0_def)
qed (rule step_balanced[OF page_law_conc], assumption+)

lemma subset_of_balance:
  "balanced dn pd sr {#} c \<Longrightarrow> tot dn (events (sh c)) \<subseteq># tot sr (events (sh c))"
  by (simp add: balanced_def) (metis mset_subset_eq_add_left)

text \<open>
  C3, for the two programs of main.go. The loop over the items of a page starts a
  restore goroutine for an item exactly when its \<open>ExplicitlyTrashed\<close> flag is set, under
  the id of the folder the page was listed for (\<open>root\<close> for the store root). The
  goroutine leaves nothing behind; when its paced call succeeds the restored counter
  goes up by one, and when it fails the counter stays and the log gets one line with the
  item's id, its title and that folder. Over a run, the restores made are among the
  explicitly trashed items of the pages fetched, and are exactly these once the process
  has exited with status 0.
\<close>

theorem restore_dispatch_and_outcome:
  "fst (snd (exec_dedup p srv verbose (ForChilds folderID (child # rest) recurse) s))
     = (if file_ExplicitlyTrashed child then [[GoRestore child folderID]] else []) \<and>
   fst (snd (exec_conc p srv verbose (ForChilds folderID (child # rest) recurse) s))
     = (if file_ExplicitlyTrashed child then [[GoRestore child folderID]] else []) \<and>
   fst (exec_dedup p srv verbose (RestoreTrashed folderId childs recurse) s)
     = [ForChilds (if folderId = '''' then ''root'' else folderId) childs recurse] \<and>
   fst (exec_conc p srv verbose (RestoreTrashed folderId childs recurse) s)
     = [ForChilds (if folderId = '''' then ''root'' else folderId) childs recurse] \<and>
   (\<exists>s'. exec_dedup p srv verbose (GoRestore child folderID) s = ([], [], s') \<and>
         exit_code s' = exit_code s \<and>
         (restore_result p srv child = None \<longrightarrow> countRestored s' = countRestored s + 1) \<and>
         (\<forall>e. restore_result p srv child = Some e \<longrightarrow>
            countRestored s' = countRestored s \<and>
            events s' = events s @
              logs_if verbose (Printf ''Restoring %v %v in folder %v''
                 [Str (file_Id child), Str (file_Title child), Str folderID]) @
              [Untrashed child (Some e),
               Logged (Printf ''Failed to restore file %v %v in folder %v: %s''
                 [Str (file_Id child), Str (file_Title child), Str folderID, Err e])])) \<and>
   (\<exists>s'. exec_conc p srv verbose (GoRestore child folderID) s = ([], [], s') \<and>
         exit_code s' = exit_code s \<and>
         (restore_result p srv child = None \<longrightarrow> countRestored s' = countRestored s + 1) \<and>
         (\<forall>e. restore_result p srv child = Some e \<longrightarrow>
            countRestored s' = countRestored s \<and>
            events s' = events s @
              [Untrashed child (Some e),
               Logged (Printf ''Failed to restore file %v %v in folder %v: %s''
                 [Str (file_Id child), Str (file_Title child), Str folderID, Err e])])) \<and>
   (c = main_dedup new srv verbose st args sched \<or> c = main_conc new srv verbose st args sched
      \<longrightarrow> tot restore_done (events (sh c)) \<subseteq># tot trashed_found (events (sh c)) \<and>
          (exit_code (sh c) = Some 0 \<longrightarrow>
             tot restore_done (events (sh c)) = tot trashed_found (events (sh c))))"
proof -
  have run: "tot restore_done (events (sh c)) \<subseteq># tot trashed_found (events (sh c)) \<and>
          (exit_code (sh c) = Some 0 \<longrightarrow>
             tot restore_done (events (sh c)) = tot trashed_found (events (sh c)))"
    if c: "c = main_dedup new srv verbose st args sched \<or>
           c = main_conc new srv verbose st args sched"
  proof (cases "startup_fatal st")
    case (Some l)
    with c show ?thesis by (auto simp: main_dedup_def main_conc_def start_fatal shared0_def)
  next
    case None
    from c have "sane c \<and> balanced restore_done restore_due trashed_found {#} c"
      using run_dedup(1,2)[OF None] run_conc(1,2)[OF None]
      by (auto simp: main_dedup_def main_conc_def)
    then show ?thesis using subset_of_balance balanced_at_exit by fastforce
  qed
  have d: "\<exists>s'. exec_dedup p srv verbose (GoRestore child folderID) s = ([], [], s') \<and>
         exit_code s' = exit_code s \<and>
         (restore_result p srv child = None \<longrightarrow> countRestored s' = countRestored s + 1) \<and>
         (\<forall>e. restore_result p srv child = Some e \<longrightarrow>
            countRestored s' = countRestored s \<and>
            events s' = events s @
              logs_if verbose (Printf ''Restoring %v %v in folder %v''
                 [Str (file_Id child), Str (file_Title child), Str folderID]) @
              [Untrashed child (Some e),
               Logged (Printf ''Failed to restore file %v %v in folder %v: %s''
                 [Str (file_Id child), Str (file_Title child), Str folderID, Err e])])"
    by (cases "restore_result p srv child")
       (simp_all add: Let_def restore_result_def logs_if_def)
  have e: "\<exists>s'. exec_conc p srv verbose (GoRestore child folderID) s = ([], [], s') \<and>
         exit_code s' = exit_code s \<and>
         (restore_result p srv child = None \<longrightarrow> countRestored s' = countRestored s + 1) \<and>
         (\<forall>e. restore_result p srv child = Some e \<longrightarrow>
            countRestored s' = countRestored s \<and>
            events s' = events s @
              [Untrashed child (Some e),
               Logged (Printf ''Failed to restore file %v %v in folder %v: %s''
                 [Str (file_Id child), Str (file_Title child), Str folderID, Err e])])"
    by (cases "restore_result p srv child")
       (simp_all add: Let_def restore_result_def)
  from run d e show ?thesis by simp
qed

text \<open>
  C6, for the two programs of main.go. \<open>processFolder\<close> starts its page loop with the
  empty token. A page that arrives is handed, as it is, to a goroutine of its own in the
  same step, and what stays of the loop is the next fetch with the token the page
  returned, or nothing when that token is empty. Over a run that has exited with status
  0, the listings made are one from the empty token per claimed folder (per reference to
  a folder in the program without the registry) and one per non-empty token returned.
\<close>

theorem pages_dispatched_as_fetched:
  "(getFolderPage p srv folderId pageToken = PageOk files tok \<longrightarrow>
      (\<exists>s'. exec_dedup p srv verbose (ForPages folderId folderTitle pageToken cl) s
               = ((if tok = '''' then [] else [ForPages folderId folderTitle tok cl]),
                  [[RestoreTrashed folderId files True]], s') \<and>
            events s' = events s @ [Listed folderId pageToken (PageOk files tok)])) \<and>
   (getFolderPage_conc p srv folderId pageToken = PageOk files tok \<longrightarrow>
      (\<exists>s'. exec_conc p srv verbose (ForPages folderId folderTitle pageToken cl) s
               = ((if tok = '''' then [] else [ForPages folderId folderTitle tok cl]),
                  [[RestoreTrashed folderId files True]], s') \<and>
            events s' = events s @ [Listed folderId pageToken (PageOk files tok)] @
              logs_if verbose (Println [Str ''got page with'', Num (length files),
                                        Str ''entries'']))) \<and>
   (\<not> 0 <s lookup (seen s) folderId \<longrightarrow>
      fst (exec_dedup p srv verbose (ProcessFolder folderId folderTitle cl) s)
        = [ForPages folderId folderTitle '''' cl]) \<and>
   fst (exec_conc p srv verbose (ProcessFolder folderId folderTitle cl) s)
     = [ForPages folderId folderTitle '''' cl] \<and>
   (c = main_dedup new srv verbose st args sched \<and> exit_code (sh c) = Some 0 \<longrightarrow>
      tot listed (events (sh c)) = tot pages_owed (events (sh c))) \<and>
   (c = main_conc new srv verbose st args sched \<and> exit_code (sh c) = Some 0 \<longrightarrow>
      tot listed (events (sh c))
        = tot pages_owed_conc (events (sh c)) + image_mset (\<lambda>f. (f, '''')) (mset (roots args)))"
proof -
  have a: "tot listed (events (sh c)) = tot pages_owed (events (sh c))"
    if c: "c = main_dedup new srv verbose st args sched" and x: "exit_code (sh c) = Some 0"
  proof (cases "startup_fatal st")
    case (Some l)
    with c x show ?thesis by (simp add: main_dedup_def start_fatal)
  next
    case None
    from c have r: "c = run (exec_dedup (main_pacer_aggressive new) srv verbose) sched
                          (main_start ''/'' st args)" by (simp add: main_dedup_def)
    from balanced_at_exit[OF run_dedup(1)[OF None r] x run_dedup(3)[OF None r]]
    show ?thesis by simp
  qed
  have b: "tot listed (events (sh c))
        = tot pages_owed_conc (events (sh c)) + image_mset (\<lambda>f. (f, '''')) (mset (roots args))"
    if c: "c = main_conc new srv verbose st args sched" and x: "exit_code (sh c) = Some 0"
  proof (cases "startup_fatal st")
    case (Some l)
    with c x show ?thesis by (simp add: main_conc_def start_fatal)
  next
    case None
    from c have r: "c = run (exec_conc (main_pacer_default new) srv verbose) sched
                          (main_start '''' st args)" by (simp add: main_conc_def)
    from balanced_at_exit[OF run_conc(1)[OF None r] x run_pages_conc[OF None r]]
    show ?thesis .
  qed
  from a b show ?thesis by (auto simp: Let_def logs_if_def)
qed

lemma page_loop_seq_returns:
  assumes r: "page_loop_seq getp verbose folderId files pageToken evs = Some r"
    and g: "\<forall>tok. getp tok \<noteq> PagePanic"
  shows "\<exists>x evs'. r = Returned x evs'"
proof -
  have "(\<forall>tok. getp tok \<noteq> PagePanic) \<longrightarrow> (\<exists>x evs'. r = Returned x evs')"
  proof (rule page_loop_seq.raw_induct[where P = "\<lambda>getp verbose folderId files pageToken evs r.
      (\<forall>tok. getp tok \<noteq> PagePanic) \<longrightarrow> (\<exists>x evs'. r = Returned x evs')", OF _ r])
    fix loop getp verbose folderId files pageToken evs and r :: "(drive_file list \<times> go_error option) seq_result"
    assume ih: "\<And>getp verbose folderId files pageToken evs r.
        loop getp verbose folderId files pageToken evs = Some r \<Longrightarrow>
        (\<forall>tok. getp tok \<noteq> PagePanic) \<longrightarrow> (\<exists>x evs'. r = Returned x evs')"
      and b: "(if pageToken \<noteq> '''' then
        (case getp pageToken of
           PageOk f tok \<Rightarrow>
             loop getp verbose folderId (files @ f) tok
               (evs @ [Listed folderId pageToken (PageOk f tok)] @
                logs_if verbose (Println [Str ''got page with'', Num (length f),
                   Str ''entries. file count is'', Num (length (files @ f))]))
         | PageErr err \<Rightarrow>
             Some (Returned (files, Some err)
               (evs @ [Listed folderId pageToken (PageErr err)] @
                logs_if verbose (Println [Str ''got page with'', Num 0,
                   Str ''entries. file count is'', Num (length files)])))
         | PagePanic \<Rightarrow> Some (Exited 2 (evs @ [Listed folderId pageToken PagePanic])))
      else Some (Returned (files, None) evs)) = Some r"
    show "(\<forall>tok. getp tok \<noteq> PagePanic) \<longrightarrow> (\<exists>x evs'. r = Returned x evs')"
    proof
      assume g: "\<forall>tok. getp tok \<noteq> PagePanic"
      show "\<exists>x evs'. r = Returned x evs'"
      proof (cases "pageToken = ''''")
        case True
        with b show ?thesis by auto
      next
        case False
        show ?thesis
        proof (cases "getp pageToken")
          case (PageOk f tok)
          with b False ih g show ?thesis by auto
        next
          case (PageErr e)
          with b False show ?thesis by auto
        next
          case PagePanic
          with g show ?thesis by auto
        qed
      qed
    qed
  qed
  with g show ?thesis by simp
qed

lemma pages_seq_returns:
  assumes "pages_seq getp verbose folderId evs = Some r"
    and "\<forall>tok. getp tok \<noteq> PagePanic"
  shows "\<exists>x evs'. r = Returned x evs'"
  using assms page_loop_seq_returns[of getp verbose folderId]
  by (cases "getp ''''") (auto simp: pages_seq_def)

lemma listFolder_seq_returns:
  "listFolder_seq p srv verbose folderId evs = Some r \<Longrightarrow> 0 < retries p \<Longrightarrow>
   \<exists>x evs'. r = Returned x evs'"
  using pages_seq_returns[of "getFolderPage_seq p srv folderId" verbose folderId evs r]
  by (simp add: listFolder_seq_def getFolderPage_seq_def paged_list_no_panic)

lemma listDrive_seq_returns:
  "listDrive_seq p srv verbose evs = Some r \<Longrightarrow> 0 < retries p \<Longrightarrow>
   \<exists>x evs'. r = Returned x evs'"
  using pages_seq_returns[of "getPage_seq p srv" verbose "''''" evs r]
  by (simp add: listDrive_seq_def getPage_seq_def paged_list_no_panic)

lemma restoreChilds_seq_returns:
  assumes r: "restoreChilds_seq p srv verbose parent childs recurse evs = Some r"
    and g: "0 < retries p"
  shows "\<exists>evs'. r = Returned () evs'"
proof -
  have "0 < retries p \<longrightarrow> (\<exists>evs'. r = Returned () evs')"
  proof (rule restoreChilds_seq.raw_induct[where P = "\<lambda>p srv verbose parent childs recurse evs r.
      0 < retries p \<longrightarrow> (\<exists>evs'. r = Returned () evs')", OF _ r], goal_cases)
    case (1 loop p srv verbose parent childs recurse evs r)
    note ih = 1(1) and b = 1(2)
    show ?case
    proof
      assume g: "0 < retries p"
      show "\<exists>evs'. r = Returned () evs'"
      proof (cases childs)
        case Nil
        with b show ?thesis by auto
      next
        case (Cons child rest)
        show ?thesis
        proof (cases "recurse \<and> file_MimeType child = ''application/vnd.google-apps.folder''")
          case False
          with b Cons have "loop p srv verbose parent rest recurse
                (evs @ restore_child_seq p srv verbose child) = Some r" by auto
          from ih[OF this] g show ?thesis by simp
        next
          case True
          let ?l = "listFolder_seq p srv verbose (file_Id child)
                     (evs @ restore_child_seq p srv verbose child)"
          from b Cons True obtain y where y: "?l = Some y" by (cases ?l) auto
          from listFolder_seq_returns[OF y g] obtain d e evs' where
            d: "y = Returned (d, e) evs'" by auto
          show ?thesis
          proof (cases e)
            case (Some err)
            with b Cons True y d have "loop p srv verbose parent rest recurse
                    (evs' @ [Logged (Println [Str ''unable to list'', Str (file_Title child),
                                              Err err])]) = Some r" by simp
            from ih[OF this] g show ?thesis by simp
          next
            case None
            with b Cons True y d have "\<exists>r1.
                loop p srv verbose (file_Id child) d recurse
                       (evs' @ logs_if verbose (Println [Str ''restore trash in'',
                                                         Str (file_Id child)])) = Some r1 \<and>
                (case r1 of
                       Exited n evs'' \<Rightarrow> Some (Exited n evs'')
                     | Returned u evs'' \<Rightarrow> loop p srv verbose parent rest recurse evs'') = Some r"
              by (auto simp: bind_eq_Some_conv split: seq_result.splits)
            then obtain r1 where
              r1: "loop p srv verbose (file_Id child) d recurse
                       (evs' @ logs_if verbose (Println [Str ''restore trash in'',
                                                         Str (file_Id child)])) = Some r1"
              and k: "(case r1 of
                       Exited n evs'' \<Rightarrow> Some (Exited n evs'')
                     | Returned u evs'' \<Rightarrow> loop p srv verbose parent rest recurse evs'') = Some r"
              by blast
            from ih[OF r1] g obtain evs'' where "r1 = Returned () evs''" by auto
            with k have "loop p srv verbose parent rest recurse evs'' = Some r" by simp
            from ih[OF this] g show ?thesis by simp
          qed
        qed
      qed
    qed
  qed
  with g show ?thesis by simp
qed

lemma restoreTrashed_seq_returns:
  "restoreTrashed_seq p srv verbose parent childs recurse evs = Some r \<Longrightarrow> 0 < retries p \<Longrightarrow>
   \<exists>evs'. r = Returned () evs'"
  using restoreChilds_seq_returns by (simp add: restoreTrashed_seq_def)

lemma main_args_seq_returns:
  "main_args_seq p srv verbose args evs = Some r \<Longrightarrow> 0 < retries p \<Longrightarrow>
   \<exists>evs'. r = Returned () evs'"
proof (induction args arbitrary: evs)
  case Nil
  then show ?case by auto
next
  case (Cons folderId args)
  from Cons.prems(1) obtain y where y: "listFolder_seq p srv verbose folderId evs = Some y"
    by (cases "listFolder_seq p srv verbose folderId evs") auto
  from listFolder_seq_returns[OF y Cons.prems(2)] obtain files e evs' where
    d: "y = Returned (files, e) evs'" by auto
  show ?case
  proof (cases e)
    case (Some err)
    with Cons.prems(1) y d have "main_args_seq p srv verbose args
            (evs' @ [Logged (Printf ''Unable to list folder %q: %v'' [Str folderId, Err err])])
          = Some r" by simp
    from Cons.IH[OF this Cons.prems(2)] show ?thesis .
  next
    case None
    with Cons.prems(1) y d obtain z where
      z: "restoreTrashed_seq p srv verbose folderId files True evs' = Some z"
      by (cases "restoreTrashed_seq p srv verbose folderId files True evs'") auto
    from restoreTrashed_seq_returns[OF z Cons.prems(2)] obtain evs'' where
      "z = Returned () evs''" by auto
    with Cons.prems(1) y d None z have "main_args_seq p srv verbose args evs'' = Some r"
      by simp
    from Cons.IH[OF this Cons.prems(2)] show ?thesis .
  qed
qed

lemma main_seq_clean:
  assumes "startup_fatal st = None" "args \<noteq> []"
    "main_seq new srv verbose st args = Some (n, evs)"
  shows "n = 0"
proof -
  have p: "0 < retries (main_pacer_default new)"
    by (simp add: main_pacer_default_def SetRetries_def SetMaxConnections_def SetCalculator_def)
  from assms obtain r where
    r: "main_args_seq (main_pacer_default new) srv verbose args [] = Some r"
    by (cases "main_args_seq (main_pacer_default new) srv verbose args []")
       (auto simp: main_seq_def Let_def)
  from main_args_seq_returns[OF r p] obtain evs' where "r = Returned () evs'" by auto
  with assms r show ?thesis by (auto simp: main_seq_def Let_def)
qed

lemma startup_fatal_fields:
  "startup_fatal st = None \<longleftrightarrow>
     ReadFile_err st = None \<and> ConfigFromJSON_err st = None \<and> getClient_fatal st = None \<and>
     drive_New_err st = None"
  by (simp add: startup_fatal_def split: option.splits)

lemma startup_halts:
  "startup_fatal st = Some l \<Longrightarrow> halts_before_listing l new srv verbose st args sched"
  by (simp add: halts_before_listing_def main_dedup_def main_conc_def start_fatal shared0_def
      main_seq_def)

text \<open>
  C7, as the programs have it. In the two programs of main.go a failed page fetch of a
  folder named as an argument or found as a child ends the page loop of that folder
  with nothing left to run, adds one log line with the folder's id (an argument) or
  title (a child), and leaves the exit status alone; the same failure for the store
  root, listed when there is no argument, exits with status 1. In the sequential program
  a failed listing of an argument or of a child folder adds its log line and goes on
  with the next argument or item, using none of the items listed, and a failed listing
  of the store root ends the process with status 1. With a good startup and at least one
  argument, no run of any of the three programs ends with another status than 0. When
  the credentials file cannot be read, or parsed, or the client or the service cannot
  be had, each program exits with status 1 and that fatal line is its whole trace.
\<close>

theorem listing_failure_stays_local:
  "(getFolderPage p srv folderId pageToken = PageErr e \<longrightarrow>
      (\<exists>s'. exec_dedup p srv verbose (ForPages folderId folderTitle pageToken FromArgs) s
               = ([], [], s') \<and> exit_code s' = exit_code s \<and>
            events s' = events s @
              [Listed folderId pageToken (PageErr e),
               Logged (Printf ''Unable to list folder %q: %v''
                 [Str folderId, Err (Errorf ''Failed to get file listing: '' e)])]) \<and>
      (\<exists>s'. exec_dedup p srv verbose (ForPages folderId folderTitle pageToken FromRestore) s
               = ([], [], s') \<and> exit_code s' = exit_code s \<and>
            events s' = events s @
              [Listed folderId pageToken (PageErr e),
               Logged (Println [Str ''unable to list'', Str folderTitle,
                                Err (Errorf ''Failed to get file listing: '' e)])]) \<and>
      (\<exists>s'. exec_dedup p srv verbose (ForPages folderId folderTitle pageToken FromRoot) s
               = ([], [], s') \<and> exit_code s' = Some 1)) \<and>
   (getFolderPage_conc p srv folderId pageToken = PageErr e \<longrightarrow>
      (\<exists>s'. exec_conc p srv verbose (ForPages folderId folderTitle pageToken FromArgs) s
               = ([], [], s') \<and> exit_code s' = exit_code s \<and>
            events s' = events s @
              [Listed folderId pageToken (PageErr e),
               Logged (Printf ''Unable to list folder %q: %v''
                 [Str folderId, Err (Errorf ''Failed to get file listing: '' e)])]) \<and>
      (\<exists>s'. exec_conc p srv verbose (ForPages folderId folderTitle pageToken FromRestore) s
               = ([], [], s') \<and> exit_code s' = exit_code s \<and>
            events s' = events s @
              [Listed folderId pageToken (PageErr e),
               Logged (Println [Str ''unable to list'', Str folderTitle,
                                Err (Errorf ''Failed to get file listing: '' e)])]) \<and>
      (\<exists>s'. exec_conc p srv verbose (ForPages folderId folderTitle pageToken FromRoot) s
               = ([], [], s') \<and> exit_code s' = Some 1)) \<and>
   (listFolder_seq p srv verbose folderId evs = Some (Returned (files, Some e) evs') \<longrightarrow>
      main_args_seq p srv verbose (folderId # args) evs
        = main_args_seq p srv verbose args
            (evs' @ [Logged (Printf ''Unable to list folder %q: %v'' [Str folderId, Err e])])) \<and>
   (file_MimeType child = ''application/vnd.google-apps.folder'' \<and>
    listFolder_seq p srv verbose (file_Id child) (evs @ restore_child_seq p srv verbose child)
      = Some (Returned (files, Some e) evs') \<longrightarrow>
      restoreChilds_seq p srv verbose parent (child # rest) True evs
        = restoreChilds_seq p srv verbose parent rest True
            (evs' @ [Logged (Println [Str ''unable to list'', Str (file_Title child), Err e])])) \<and>
   (ReadFile_err st = None \<and> ConfigFromJSON_err st = None \<and> getClient_fatal st = None \<and>
    drive_New_err st = None \<longrightarrow>
      (listDrive_seq (main_pacer_default new) srv verbose [] = Some (Returned (files, Some e) evs')
         \<longrightarrow> main_seq new srv verbose st []
               = Some (1, evs' @ [Logged (Fatalf ''Unable to list drive: %v'' [Err e])])) \<and>
      (args \<noteq> [] \<longrightarrow>
         (c = main_dedup new srv verbose st args sched \<or>
          c = main_conc new srv verbose st args sched
            \<longrightarrow> exit_code (sh c) = None \<or> exit_code (sh c) = Some 0) \<and>
         (main_seq new srv verbose st args = Some (n, tr) \<longrightarrow> n = 0))) \<and>
   (ReadFile_err st = Some e \<longrightarrow>
      halts_before_listing (Fatalf ''Unable to read client secret file: %v'' [Err e])
        new srv verbose st args sched) \<and>
   (ReadFile_err st = None \<and> ConfigFromJSON_err st = Some e \<longrightarrow>
      halts_before_listing (Fatalf ''Unable to parse client secret file to config: %v'' [Err e])
        new srv verbose st args sched) \<and>
   (ReadFile_err st = None \<and> ConfigFromJSON_err st = None \<and> getClient_fatal st = Some l \<longrightarrow>
      halts_before_listing l new srv verbose st args sched) \<and>
   (ReadFile_err st = None \<and> ConfigFromJSON_err st = None \<and> getClient_fatal st = None \<and>
    drive_New_err st = Some e \<longrightarrow>
      halts_before_listing (Fatalf ''Unable to retrieve drive Client %v'' [Err e])
        new srv verbose st args sched)"
proof -
  have run: "exit_code (sh c) = None \<or> exit_code (sh c) = Some 0"
    if "startup_fatal st = None" "args \<noteq> []"
      "c = main_dedup new srv verbose st args sched \<or> c = main_conc new srv verbose st args sched"
    using that run_clean_dedup[of "main_pacer_aggressive new" args st srv verbose sched "''/''"]
      run_clean_conc[of "main_pacer_default new" args st srv verbose sched "''''"]
    by (auto simp: main_dedup_def main_conc_def clean_exit_def)
  have root: "main_seq new srv verbose st []
               = Some (1, evs' @ [Logged (Fatalf ''Unable to list drive: %v'' [Err e])])"
    if "startup_fatal st = None"
      "listDrive_seq (main_pacer_default new) srv verbose [] = Some (Returned (files, Some e) evs')"
    using that by (simp add: main_seq_def Let_def)
  have ok: "(listDrive_seq (main_pacer_default new) srv verbose [] = Some (Returned (files, Some e) evs')
         \<longrightarrow> main_seq new srv verbose st []
               = Some (1, evs' @ [Logged (Fatalf ''Unable to list drive: %v'' [Err e])])) \<and>
      (args \<noteq> [] \<longrightarrow>
         (c = main_dedup new srv verbose st args sched \<or>
          c = main_conc new srv verbose st args sched
            \<longrightarrow> exit_code (sh c) = None \<or> exit_code (sh c) = Some 0) \<and>
         (main_seq new srv verbose st args = Some (n, tr) \<longrightarrow> n = 0))"
    if "ReadFile_err st = None \<and> ConfigFromJSON_err st = None \<and> getClient_fatal st = None \<and>
        drive_New_err st = None"
  proof -
    from that have s: "startup_fatal st = None" by (simp add: startup_fatal_fields)
    from run[OF s] root[OF s] main_seq_clean[OF s, of args new srv verbose n tr]
    show ?thesis by (intro conjI impI) auto
  qed
  have f1: "halts_before_listing (Fatalf ''Unable to read client secret file: %v'' [Err e])
        new srv verbose st args sched" if "ReadFile_err st = Some e"
    using that by (intro startup_halts) (simp add: startup_fatal_def)
  have f2: "halts_before_listing (Fatalf ''Unable to parse client secret file to config: %v'' [Err e])
        new srv verbose st args sched" if "ReadFile_err st = None \<and> ConfigFromJSON_err st = Some e"
    using that by (intro startup_halts) (simp add: startup_fatal_def)
  have f3: "halts_before_listing l new srv verbose st args sched"
    if "ReadFile_err st = None \<and> ConfigFromJSON_err st = None \<and> getClient_fatal st = Some l"
    using that by (intro startup_halts) (simp add: startup_fatal_def)
  have f4: "halts_before_listing (Fatalf ''Unable to retrieve drive Client %v'' [Err e])
        new srv verbose st args sched"
    if "ReadFile_err st = None \<and> ConfigFromJSON_err st = None \<and> getClient_fatal st = None \<and>
        drive_New_err st = Some e"
    using that by (intro startup_halts) (simp add: startup_fatal_def)
  have q1: "listFolder_seq p srv verbose folderId evs = Some (Returned (files, Some e) evs') \<longrightarrow>
      main_args_seq p srv verbose (folderId # args) evs
        = main_args_seq p srv verbose args
            (evs' @ [Logged (Printf ''Unable to list folder %q: %v'' [Str folderId, Err e])])"
    by simp
  have q2: "file_MimeType child = ''application/vnd.google-apps.folder'' \<and>
    listFolder_seq p srv verbose (file_Id child) (evs @ restore_child_seq p srv verbose child)
      = Some (Returned (files, Some e) evs') \<longrightarrow>
      restoreChilds_seq p srv verbose parent (child # rest) True evs
        = restoreChilds_seq p srv verbose parent rest True
            (evs' @ [Logged (Println [Str ''unable to list'', Str (file_Title child), Err e])])"
    by (subst restoreChilds_seq.simps) simp
  have d: "getFolderPage p srv folderId pageToken = PageErr e \<longrightarrow>
      (\<exists>s'. exec_dedup p srv verbose (ForPages folderId folderTitle pageToken FromArgs) s
               = ([], [], s') \<and> exit_code s' = exit_code s \<and>
            events s' = events s @
              [Listed folderId pageToken (PageErr e),
               Logged (Printf ''Unable to list folder %q: %v''
                 [Str folderId, Err (Errorf ''Failed to get file listing: '' e)])]) \<and>
      (\<exists>s'. exec_dedup p srv verbose (ForPages folderId folderTitle pageToken FromRestore) s
               = ([], [], s') \<and> exit_code s' = exit_code s \<and>
            events s' = events s @
              [Listed folderId pageToken (PageErr e),
               Logged (Println [Str ''unable to list'', Str folderTitle,
                                Err (Errorf ''Failed to get file listing: '' e)])]) \<and>
      (\<exists>s'. exec_dedup p srv verbose (ForPages folderId folderTitle pageToken FromRoot) s
               = ([], [], s') \<and> exit_code s' = Some 1)"
    by (simp add: Let_def)
  have k: "getFolderPage_conc p srv folderId pageToken = PageErr e \<longrightarrow>
      (\<exists>s'. exec_conc p srv verbose (ForPages folderId folderTitle pageToken FromArgs) s
               = ([], [], s') \<and> exit_code s' = exit_code s \<and>
            events s' = events s @
              [Listed folderId pageToken (PageErr e),
               Logged (Printf ''Unable to list folder %q: %v''
                 [Str folderId, Err (Errorf ''Failed to get file listing: '' e)])]) \<and>
      (\<exists>s'. exec_conc p srv verbose (ForPages folderId folderTitle pageToken FromRestore) s
               = ([], [], s') \<and> exit_code s' = exit_code s \<and>
            events s' = events s @
              [Listed folderId pageToken (PageErr e),
               Logged (Println [Str ''unable to list'', Str folderTitle,
                                Err (Errorf ''Failed to get file listing: '' e)])]) \<and>
      (\<exists>s'. exec_conc p srv verbose (ForPages folderId folderTitle pageToken FromRoot) s
               = ([], [], s') \<and> exit_code s' = Some 1)"
    by (simp add: Let_def)
  from d k q1 q2 ok f1 f2 f3 f4 show ?thesis by blast
qed

text \<open>
  The first program of main.go keeps no registry: a folder named twice on the command
  line has its first page listed twice in a run that exits with status 0.
\<close>

theorem conc_lists_repeated_root_twice:
  "exit_code (sh repeated_root_run) = Some 0 \<and>
   count (tot listed (events (sh repeated_root_run))) (''A'', '''') = 2"
proof -
  have "events (sh repeated_root_run)
      = [Listed ''A'' '''' (PageOk [] ''''), Listed ''A'' '''' (PageOk [] ''''),
         Logged (Printf ''Waiting for goroutines to finish...'' []),
         Logged (Printf ''Restored %d files in total'' [Cnt 0])]"
    by code_simp
  moreover have "exit_code (sh repeated_root_run) = Some 0" by code_simp
  ultimately show ?thesis by simp
qed

text \<open>
  The sequential program has no restored counter, and the line it logs for a failed
  restore carries the item's id and name but not the folder it was found in.
\<close>

theorem seq_restore_failure_logs_no_scope:
  "main_seq pacer_New refusing_store False startup_fine [''P'']
     = Some (0, [Listed ''P'' '''' (PageOk [file_X1] ''''),
                 Untrashed file_X1 (Some not_found),
                 Logged (Println [Str ''unable restore trash'', Str ''X1'', Str ''x1.txt'',
                                  Err not_found])]) \<and>
   Str ''P'' \<notin> set [Str ''unable restore trash'', Str ''X1'', Str ''x1.txt'', Err not_found]"
  by code_simp

text \<open>
  The sequential program fetches every page of a folder before it looks at any item:
  \<open>listFolder\<close> returns the items of both pages together, and the first restore comes
  after the second listing.
\<close>

theorem seq_lists_all_pages_before_dispatch:
  "listFolder_seq (main_pacer_default pacer_New) two_page_store False ''F'' []
     = Some (Returned ([file_X1, file_X2], None)
               [Listed ''F'' '''' (PageOk [file_X1] ''t1''),
                Listed ''F'' ''t1'' (PageOk [file_X2] '''')]) \<and>
   main_seq pacer_New two_page_store False startup_fine [''F'']
     = Some (0, [Listed ''F'' '''' (PageOk [file_X1] ''t1''),
                 Listed ''F'' ''t1'' (PageOk [file_X2] ''''),
                 Untrashed file_X1 None, Untrashed file_X2 None])"
  by code_simp

text \<open>
  With no argument the programs list the store root, and a failure of that listing
  ends the process with status 1. And in the programs of main.go a page that fails
  after an earlier page of the folder has arrived leaves that earlier page dispatched:
  its subfolder \<open>B\<close> is listed and the file in it restored.
\<close>

theorem listing_failure_root_fatal_late_partial:
  "exit_code (sh (main_dedup pacer_New unlistable_store False startup_fine [] [0, 0])) = Some 1 \<and>
   exit_code (sh (main_conc pacer_New unlistable_store False startup_fine [] [0, 0])) = Some 1 \<and>
   map_option fst (main_seq pacer_New unlistable_store False startup_fine []) = Some 1 \<and>
   exit_code (sh half_listed_run) = Some 0 \<and>
   events (sh half_listed_run)
     = [Claimed ''A'',
        Listed ''A'' '''' (PageOk [folder_B] ''t1''),
        Listed ''A'' ''t1'' (PageErr (Errorf ''Unable to retrieve files: '' not_found)),
        Logged (Printf ''Unable to list folder %q: %v''
          [Str ''A'', Err (Errorf ''Failed to get file listing: ''
                            (Errorf ''Unable to retrieve files: '' not_found))]),
        Logged (Printf ''Waiting for goroutines to finish...'' []),
        Claimed ''B'',
        Listed ''B'' '''' (PageOk [file_F1] ''''),
        Untrashed file_F1 None,
        Logged (Printf ''Processed %d folders in total'' [Cnt 2]),
        Logged (Printf ''Restored %d files in total'' [Cnt 1])] \<and>
   exit_code (sh half_listed_run_conc) = Some 0 \<and>
   events (sh half_listed_run_conc)
     = [Listed ''A'' '''' (PageOk [folder_B] ''t1''),
        Listed ''A'' ''t1'' (PageErr (Errorf ''Unable to retrieve files: '' not_found)),
        Logged (Printf ''Unable to list folder %q: %v''
          [Str ''A'', Err (Errorf ''Failed to get file listing: ''
                            (Errorf ''Unable to retrieve files: '' not_found))]),
        Logged (Printf ''Waiting for goroutines to finish...'' []),
        Listed ''B'' '''' (PageOk [file_F1] ''''),
        Untrashed file_F1 None,
        Logged (Printf ''Restored %d files in total'' [Cnt 1])]"
  by code_simp

lemma failing_listing_trace:
  "exit_code (sh failing_listing_run) \<noteq> None"
  "events (sh failing_listing_run)
     = [Claimed ''P'',
        Listed ''P'' '''' (PageErr (Errorf ''Unable to retrieve files: '' not_found)),
        Logged (Printf ''Unable to list folder %q: %v''
          [Str ''P'', Err (Errorf ''Failed to get file listing: ''
                            (Errorf ''Unable to retrieve files: '' not_found))]),
        Logged (Printf ''Waiting for goroutines to finish...'' []),
        Logged (Printf ''Processed %d folders in total'' [Cnt 1]),
        Logged (Printf ''Restored %d files in total'' [Cnt 0])]"
  "main_seq pacer_New unlistable_store False startup_fine [''P'']
     = Some (0, [Listed ''P'' '''' (PageErr (Errorf ''Unable to retrieve files: '' not_found)),
                 Logged (Printf ''Unable to list folder %q: %v''
                   [Str ''P'', Err (Errorf ''Unable to retrieve files: '' not_found)])])"
  "getFolderPage (main_pacer_aggressive pacer_New) unlistable_store ''P'' ''''
     = PageErr (Errorf ''Unable to retrieve files: '' not_found)"
  by code_simp+

lemma failing_restore_trace:
  "exit_code (sh failing_restore_run) = Some 0"
  "events (sh failing_restore_run)
     = [Claimed ''P'', Listed ''P'' '''' (PageOk [file_X1] ''''),
        Logged (Printf ''Waiting for goroutines to finish...'' []),
        Untrashed file_X1 (Some not_found),
        Logged (Printf ''Failed to restore file %v %v in folder %v: %s''
          [Str ''X1'', Str ''x1.txt'', Str ''P'', Err not_found]),
        Logged (Printf ''Processed %d folders in total'' [Cnt 1]),
        Logged (Printf ''Restored %d files in total'' [Cnt 0])]"
  "countRestored (sh failing_restore_run) = 0"
  by code_simp+

lemma two_page_trace:
  "exit_code (sh two_page_run) = Some 0"
  "events (sh two_page_run)
     = [Claimed ''F'', Listed ''F'' '''' (PageOk [file_X1] ''t1''),
        Listed ''F'' ''t1'' (PageOk [file_X2] ''''),
        Logged (Printf ''Waiting for goroutines to finish...'' []),
        Untrashed file_X1 None, Untrashed file_X2 None,
        Logged (Printf ''Processed %d folders in total'' [Cnt 1]),
        Logged (Printf ''Restored %d files in total'' [Cnt 2])]"
  "exit_code (sh two_page_run_conc) = Some 0"
  "getFolderPage (main_pacer_aggressive pacer_New) two_page_store ''F'' ''''
     = PageOk [file_X1] ''t1''"
  "getFolderPage_conc (main_pacer_default pacer_New) two_page_store ''F'' ''t1''
     = PageOk [file_X2] ''''"
  by code_simp+

theorem listing_failure_stays_local_witness:
  "ReadFile_err startup_fine = None \<and> ConfigFromJSON_err startup_fine = None \<and>
   getClient_fatal startup_fine = None \<and> drive_New_err startup_fine = None \<and>
   [''P''] \<noteq> [] \<and>
   getFolderPage (main_pacer_aggressive pacer_New) unlistable_store ''P'' ''''
     = PageErr (Errorf ''Unable to retrieve files: '' not_found) \<and>
   (\<exists>s'. exec_dedup (main_pacer_aggressive pacer_New) unlistable_store False
            (ForPages ''P'' '''' '''' FromArgs) shared0 = ([], [], s') \<and>
         exit_code s' = None \<and>
         events s' = [Listed ''P'' '''' (PageErr (Errorf ''Unable to retrieve files: '' not_found)),
                      Logged (Printf ''Unable to list folder %q: %v''
                        [Str ''P'', Err (Errorf ''Failed to get file listing: ''
                           (Errorf ''Unable to retrieve files: '' not_found))])]) \<and>
   exit_code (sh failing_listing_run) = Some 0 \<and>
   events (sh failing_listing_run)
     = [Claimed ''P'',
        Listed ''P'' '''' (PageErr (Errorf ''Unable to retrieve files: '' not_found)),
        Logged (Printf ''Unable to list folder %q: %v''
          [Str ''P'', Err (Errorf ''Failed to get file listing: ''
                            (Errorf ''Unable to retrieve files: '' not_found))]),
        Logged (Printf ''Waiting for goroutines to finish...'' []),
        Logged (Printf ''Processed %d folders in total'' [Cnt 1]),
        Logged (Printf ''Restored %d files in total'' [Cnt 0])] \<and>
   main_seq pacer_New unlistable_store False startup_fine [''P'']
     = Some (0, [Listed ''P'' '''' (PageErr (Errorf ''Unable to retrieve files: '' not_found)),
                 Logged (Printf ''Unable to list folder %q: %v''
                   [Str ''P'', Err (Errorf ''Unable to retrieve files: '' not_found)])]) \<and>
   ReadFile_err startup_no_secret
     = Some (Plain ''open client_secret.json: no such file or directory'') \<and>
   exit_code (sh (main_dedup pacer_New two_page_store False startup_no_secret [''F'']
                    two_page_schedule)) = Some 1 \<and>
   events (sh (main_dedup pacer_New two_page_store False startup_no_secret [''F'']
                 two_page_schedule))
     = [Logged (Fatalf ''Unable to read client secret file: %v''
          [Err (Plain ''open client_secret.json: no such file or directory'')])] \<and>
   exit_code (sh (main_conc pacer_New two_page_store False startup_no_secret [''F'']
                    two_page_schedule)) = Some 1 \<and>
   events (sh (main_conc pacer_New two_page_store False startup_no_secret [''F'']
                 two_page_schedule))
     = [Logged (Fatalf ''Unable to read client secret file: %v''
          [Err (Plain ''open client_secret.json: no such file or directory'')])] \<and>
   main_seq pacer_New two_page_store False startup_no_secret [''F'']
     = Some (1, [Logged (Fatalf ''Unable to read client secret file: %v''
          [Err (Plain ''open client_secret.json: no such file or directory'')])])"
proof -
  have a: "ReadFile_err startup_fine = None \<and> ConfigFromJSON_err startup_fine = None \<and>
           getClient_fatal startup_fine = None \<and> drive_New_err startup_fine = None"
    by (simp add: startup_fine_def)
  have r: "ReadFile_err startup_no_secret
     = Some (Plain ''open client_secret.json: no such file or directory'')"
    by (simp add: startup_no_secret_def)
  note t1 = listing_failure_stays_local[where st = startup_fine and args = "[''P'']"
      and c = failing_listing_run and new = pacer_New and srv = unlistable_store
      and verbose = False and sched = "[0, 0, 0, 0, 0, 0]"
      and p = "main_pacer_aggressive pacer_New" and folderId = "''P''" and pageToken = "''''"
      and e = "Errorf ''Unable to retrieve files: '' not_found" and folderTitle = "''''"
      and s = shared0]
  note t2 = listing_failure_stays_local[where st = startup_no_secret and args = "[''F'']"
      and new = pacer_New and srv = two_page_store and verbose = False
      and sched = two_page_schedule
      and e = "Plain ''open client_secret.json: no such file or directory''"]
  note t1_ok = t1[THEN conjunct2, THEN conjunct2, THEN conjunct2, THEN conjunct2, THEN conjunct1]
  note t2_f1 = t2[THEN conjunct2, THEN conjunct2, THEN conjunct2, THEN conjunct2,
                  THEN conjunct2, THEN conjunct1]
  from t1[THEN conjunct1] failing_listing_trace(4)
  have s: "\<exists>s'. exec_dedup (main_pacer_aggressive pacer_New) unlistable_store False
            (ForPages ''P'' '''' '''' FromArgs) shared0 = ([], [], s') \<and>
         exit_code s' = None \<and>
         events s' = [Listed ''P'' '''' (PageErr (Errorf ''Unable to retrieve files: '' not_found)),
                      Logged (Printf ''Unable to list folder %q: %v''
                        [Str ''P'', Err (Errorf ''Failed to get file listing: ''
                           (Errorf ''Unable to retrieve files: '' not_found))])]"
    by (auto simp: shared0_def)
  from t1_ok a failing_listing_run_def
  have "exit_code (sh failing_listing_run) = None \<or> exit_code (sh failing_listing_run) = Some 0"
    by blast
  with failing_listing_trace(1)
  have x: "exit_code (sh failing_listing_run) = Some 0" by auto
  from t2_f1 r
  have h: "halts_before_listing (Fatalf ''Unable to read client secret file: %v''
             [Err (Plain ''open client_secret.json: no such file or directory'')])
             pacer_New two_page_store False startup_no_secret [''F''] two_page_schedule"
    by simp
  from a r s x h failing_listing_trace(2,3,4) show ?thesis
    by (simp add: halts_before_listing_def)
qed

theorem restore_dispatch_and_outcome_witness:
  "restore_result (main_pacer_aggressive pacer_New) refusing_store file_X1 = Some not_found \<and>
   restore_result (main_pacer_aggressive pacer_New) shared_folder_store file_F1 = None \<and>
   (\<exists>s'. exec_dedup (main_pacer_aggressive pacer_New) refusing_store False
            (GoRestore file_X1 ''P'') shared0 = ([], [], s') \<and>
         countRestored s' = 0 \<and>
         events s' = [Untrashed file_X1 (Some not_found),
                      Logged (Printf ''Failed to restore file %v %v in folder %v: %s''
                        [Str ''X1'', Str ''x1.txt'', Str ''P'', Err not_found])]) \<and>
   (\<exists>s'. exec_dedup (main_pacer_aggressive pacer_New) shared_folder_store False
            (GoRestore file_F1 ''A'') shared0 = ([], [], s') \<and>
         countRestored s' = 1) \<and>
   exit_code (sh failing_restore_run) = Some 0 \<and>
   tot restore_done (events (sh failing_restore_run)) = {#file_X1#} \<and>
   tot trashed_found (events (sh failing_restore_run)) = {#file_X1#}"
proof -
  have a: "restore_result (main_pacer_aggressive pacer_New) refusing_store file_X1
             = Some not_found" by code_simp
  have b: "restore_result (main_pacer_aggressive pacer_New) shared_folder_store file_F1 = None"
    by code_simp
  note t1 = restore_dispatch_and_outcome[where p = "main_pacer_aggressive pacer_New"
      and srv = refusing_store and verbose = False and child = file_X1 and folderID = "''P''"
      and s = shared0 and c = failing_restore_run and new = pacer_New and st = startup_fine
      and args = "[''P'']" and sched = "[0, 0, 0, 1, 1, 1, 1, 2, 2, 0, 0, 0]"]
  note t2 = restore_dispatch_and_outcome[where p = "main_pacer_aggressive pacer_New"
      and srv = shared_folder_store and verbose = False and child = file_F1
      and folderID = "''A''" and s = shared0]
  note d1 = t1[THEN conjunct2, THEN conjunct2, THEN conjunct2, THEN conjunct2, THEN conjunct1]
  note d2 = t2[THEN conjunct2, THEN conjunct2, THEN conjunct2, THEN conjunct2, THEN conjunct1]
  note r1 = t1[THEN conjunct2, THEN conjunct2, THEN conjunct2, THEN conjunct2,
               THEN conjunct2, THEN conjunct2]
  from d1 a have c: "\<exists>s'. exec_dedup (main_pacer_aggressive pacer_New) refusing_store False
            (GoRestore file_X1 ''P'') shared0 = ([], [], s') \<and>
         countRestored s' = 0 \<and>
         events s' = [Untrashed file_X1 (Some not_found),
                      Logged (Printf ''Failed to restore file %v %v in folder %v: %s''
                        [Str ''X1'', Str ''x1.txt'', Str ''P'', Err not_found])]"
    by (auto simp: shared0_def logs_if_def file_X1_def)
  from d2 b have d: "\<exists>s'. exec_dedup (main_pacer_aggressive pacer_New) shared_folder_store False
            (GoRestore file_F1 ''A'') shared0 = ([], [], s') \<and> countRestored s' = 1"
    by (auto simp: shared0_def)
  from r1 failing_restore_run_def failing_restore_trace(1)
  have e: "tot restore_done (events (sh failing_restore_run))
             = tot trashed_found (events (sh failing_restore_run))" by blast
  have f: "tot trashed_found (events (sh failing_restore_run)) = {#file_X1#}"
    by (simp add: failing_restore_trace(2) file_X1_def)
  from a b c d e f failing_restore_trace(1) show ?thesis by simp
qed

theorem pages_dispatched_as_fetched_witness:
  "getFolderPage (main_pacer_aggressive pacer_New) two_page_store ''F'' ''''
     = PageOk [file_X1] ''t1'' \<and>
   (\<exists>s'. exec_dedup (main_pacer_aggressive pacer_New) two_page_store False
            (ForPages ''F'' '''' '''' FromArgs) shared0
            = ([ForPages ''F'' '''' ''t1'' FromArgs], [[RestoreTrashed ''F'' [file_X1] True]], s') \<and>
         events s' = [Listed ''F'' '''' (PageOk [file_X1] ''t1'')]) \<and>
   getFolderPage_conc (main_pacer_default pacer_New) two_page_store ''F'' ''t1''
     = PageOk [file_X2] '''' \<and>
   (\<exists>s'. exec_conc (main_pacer_default pacer_New) two_page_store False
            (ForPages ''F'' '''' ''t1'' FromArgs) shared0
            = ([], [[RestoreTrashed ''F'' [file_X2] True]], s') \<and>
         events s' = [Listed ''F'' ''t1'' (PageOk [file_X2] '''')]) \<and>
   \<not> 0 <s lookup (seen shared0) ''F'' \<and>
   fst (exec_dedup (main_pacer_aggressive pacer_New) two_page_store False
          (ProcessFolder ''F'' '''' FromArgs) shared0) = [ForPages ''F'' '''' '''' FromArgs] \<and>
   exit_code (sh two_page_run) = Some 0 \<and>
   tot listed (events (sh two_page_run)) = {#(''F'', ''''), (''F'', ''t1'')#} \<and>
   tot pages_owed (events (sh two_page_run)) = {#(''F'', ''''), (''F'', ''t1'')#} \<and>
   exit_code (sh two_page_run_conc) = Some 0 \<and>
   tot listed (events (sh two_page_run_conc))
     = tot pages_owed_conc (events (sh two_page_run_conc)) + {#(''F'', '''')#}"
proof -
  note t1 = pages_dispatched_as_fetched[where p = "main_pacer_aggressive pacer_New"
      and srv = two_page_store and verbose = False and folderId = "''F''"
      and folderTitle = "''''" and pageToken = "''''" and cl = FromArgs and s = shared0
      and files = "[file_X1]" and tok = "''t1''"
      and c = two_page_run and new = pacer_New and st = startup_fine
      and args = "[''F'']" and sched = two_page_schedule]
  note t2 = pages_dispatched_as_fetched[where p = "main_pacer_default pacer_New"
      and srv = two_page_store and verbose = False and folderId = "''F''"
      and folderTitle = "''''" and pageToken = "''t1''" and cl = FromArgs and s = shared0
      and files = "[file_X2]" and tok = "''''"
      and c = two_page_run_conc and new = pacer_New and st = startup_fine
      and args = "[''F'']" and sched = two_page_schedule]
  have n: "\<not> 0 <s lookup (seen shared0) ''F''" by (simp add: shared0_def lookup_def)
  from t1[THEN conjunct1] two_page_trace(4)
  have a: "\<exists>s'. exec_dedup (main_pacer_aggressive pacer_New) two_page_store False
            (ForPages ''F'' '''' '''' FromArgs) shared0
            = ([ForPages ''F'' '''' ''t1'' FromArgs], [[RestoreTrashed ''F'' [file_X1] True]], s') \<and>
         events s' = [Listed ''F'' '''' (PageOk [file_X1] ''t1'')]"
    by (auto simp: shared0_def)
  from t2[THEN conjunct2, THEN conjunct1] two_page_trace(5)
  have b: "\<exists>s'. exec_conc (main_pacer_default pacer_New) two_page_store False
            (ForPages ''F'' '''' ''t1'' FromArgs) shared0
            = ([], [[RestoreTrashed ''F'' [file_X2] True]], s') \<and>
         events s' = [Listed ''F'' ''t1'' (PageOk [file_X2] '''')]"
    by (auto simp: shared0_def logs_if_def)
  from t1[THEN conjunct2, THEN conjunct2, THEN conjunct1] n
  have c: "fst (exec_dedup (main_pacer_aggressive pacer_New) two_page_store False
          (ProcessFolder ''F'' '''' FromArgs) shared0) = [ForPages ''F'' '''' '''' FromArgs]"
    by auto
  from t1[THEN conjunct2, THEN conjunct2, THEN conjunct2, THEN conjunct2, THEN conjunct1]
    two_page_run_def two_page_trace(1)
  have d: "tot listed (events (sh two_page_run)) = tot pages_owed (events (sh two_page_run))"
    by auto
  have e: "tot listed (events (sh two_page_run)) = {#(''F'', ''''), (''F'', ''t1'')#}"
    by (simp add: two_page_trace(2))
  from t2[THEN conjunct2, THEN conjunct2, THEN conjunct2, THEN conjunct2, THEN conjunct2]
    two_page_run_conc_def two_page_trace(3)
  have f: "tot listed (events (sh two_page_run_conc))
     = tot pages_owed_conc (events (sh two_page_run_conc)) + {#(''F'', '''')#}"
    by (auto simp: roots_def)
  from two_page_trace(4,5) a b n c d e f two_page_trace(1,3) show ?thesis by simp
qed


end
